theory Spec2Isabelle
  imports Main
begin

section \<open>Text\<close>

text \<open>
  The theory models \<open>TGStatParser\<close>: the number normalizer, the extraction of channel
  and post records from a parsed markup tree, the refresh of the session token, the
  request methods and the two pagination drivers. The HTTP transport, the HTML parser
  and the JSON decoder are outside the model: their outcomes are inputs.

  A Python string is the list of its code points. \<open>asc\<close> gives the string of an ASCII
  literal.
\<close>

type_synonym str = "int list"

definition ch :: "char \<Rightarrow> int" where
  "ch c = of_char c"

definition asc :: "string \<Rightarrow> str" where
  "asc s = map ch s"

text \<open>
  The source classifies characters by the interpreter's Unicode database, whose content
  depends on the interpreter's version. The model takes it as a parameter:
  \<open>is_space\<close> is \<open>str.isspace\<close> on one character (the class \<open>\s\<close> of \<open>re\<close>, and what
  \<open>str.strip\<close> removes), \<open>digit_value\<close> the value of a decimal digit (the class \<open>\d\<close>, and
  the digits that \<open>int\<close> and \<open>float\<close> read), \<open>is_word\<close> the class \<open>\w\<close>, and \<open>str_lower\<close> is
  \<open>str.lower\<close>.
\<close>

record tables =
  is_space :: "int \<Rightarrow> bool"
  digit_value :: "int \<Rightarrow> int option"
  is_word :: "int \<Rightarrow> bool"
  str_lower :: "str \<Rightarrow> str"

text \<open>
  The tables of ASCII text: on the code points below 128 every version of the database
  has these values. Beyond them this instance has no space, digit or word character
  and lowers nothing.
\<close>

definition ascii_tables :: tables where
  "ascii_tables = \<lparr>
     is_space = (\<lambda>c. (9 \<le> c \<and> c \<le> 13) \<or> (28 \<le> c \<and> c \<le> 32)),
     digit_value = (\<lambda>c. if 48 \<le> c \<and> c \<le> 57 then Some (c - 48) else None),
     is_word = (\<lambda>c. (48 \<le> c \<and> c \<le> 57) \<or> (65 \<le> c \<and> c \<le> 90) \<or> (97 \<le> c \<and> c \<le> 122) \<or> c = 95),
     str_lower = map (\<lambda>c. if 65 \<le> c \<and> c \<le> 90 then c + 32 else c)\<rparr>"

definition is_digit :: "tables \<Rightarrow> int \<Rightarrow> bool" where
  "is_digit T c = (digit_value T c \<noteq> None)"

definition strip :: "tables \<Rightarrow> str \<Rightarrow> str" where
  "strip T s = rev (dropWhile (is_space T) (rev (dropWhile (is_space T) s)))"

text \<open>\<open>s.replace(a, b)\<close> for a single character \<open>a\<close>.\<close>

definition replace_char :: "int \<Rightarrow> str \<Rightarrow> str \<Rightarrow> str" where
  "replace_char a b s = concat (map (\<lambda>c. if c = a then b else [c]) s)"

section \<open>Python's \<open>int\<close> and \<open>float\<close> on text\<close>

text \<open>
  The exceptions of the model. \<open>int\<close> is modelled on Python's unbounded integers,
  without the interpreter's optional limit on the number of digits of a decimal text.
\<close>

datatype error = ValueError | OverflowError | TypeError

text \<open>
  Both conversions first bring the text to ASCII: a character from 127 on becomes a
  blank when it is a space, its ASCII digit when it is a decimal digit, and \<open>?\<close>
  otherwise. They then read the ASCII text, where white space is the C locale's.
\<close>

definition to_ascii :: "tables \<Rightarrow> str \<Rightarrow> str" where
  "to_ascii T s = map (\<lambda>c. if c < 127 then c
       else if is_space T c then 32
       else (case digit_value T c of Some d \<Rightarrow> 48 + d | None \<Rightarrow> 63)) s"

definition c_space :: "int \<Rightarrow> bool" where
  "c_space c = ((9 \<le> c \<and> c \<le> 13) \<or> c = 32)"

definition c_digit :: "int \<Rightarrow> bool" where
  "c_digit c = (48 \<le> c \<and> c \<le> 57)"

definition c_lower :: "int \<Rightarrow> int" where
  "c_lower c = (if 65 \<le> c \<and> c \<le> 90 then c + 32 else c)"

definition c_strip :: "str \<Rightarrow> str" where
  "c_strip s = rev (dropWhile c_space (rev (dropWhile c_space s)))"

text \<open>\<open>digitpart ::= digit (["_"] digit)*\<close>, the whole of the given text.\<close>

fun digitpart :: "str \<Rightarrow> bool" where
  "digitpart [] = False"
| "digitpart [c] = c_digit c"
| "digitpart (c # d # cs) =
     (c_digit c \<and> (if d = ch CHR ''_'' then digitpart cs else digitpart (d # cs)))"

definition digits_val :: "str \<Rightarrow> int" where
  "digits_val s = foldl (\<lambda>a c. 10 * a + (c - 48)) 0 (filter c_digit s)"

definition split_sign :: "str \<Rightarrow> bool \<times> str" where
  "split_sign s = (case s of
       c # cs \<Rightarrow> if c = ch CHR ''-'' then (True, cs) else if c = ch CHR ''+'' then (False, cs) else (False, s)
     | [] \<Rightarrow> (False, s))"

definition int_of_ascii :: "str \<Rightarrow> error + int" where
  "int_of_ascii s = (let (neg, body) = split_sign (c_strip s) in
     if digitpart body
     then Inr (if neg then - digits_val body else digits_val body)
     else Inl ValueError)"

definition py_int :: "tables \<Rightarrow> str \<Rightarrow> error + int" where
  "py_int T s = int_of_ascii (to_ascii T s)"

text \<open>
  A float is an IEEE 754 binary64 value: \<open>Finite m e\<close> stands for \<open>m * 2 ^ e\<close>.
  \<open>round_double neg num den\<close> rounds the quotient of \<open>num \<ge> 0\<close> by \<open>den > 0\<close>, negated
  when \<open>neg\<close> is set, to the nearest binary64 value, ties to even, as the conversion of a
  decimal literal and the multiplication do. \<open>bitlen n\<close> is the number of binary digits of
  \<open>n\<close>.
\<close>

datatype pyfloat = Finite int int | PInf | NInf | NaN

function bitlen :: "int \<Rightarrow> int" where
  "bitlen n = (if n \<le> 0 then 0 else 1 + bitlen (n div 2))"
  by pat_completeness auto
termination
  by (relation "measure nat") auto

declare bitlen.simps [simp del]

definition rne_div :: "int \<Rightarrow> int \<Rightarrow> int" where
  "rne_div n d = (let q = n div d; r = n mod d in
     if 2 * r < d then q else if d < 2 * r then q + 1 else if even q then q else q + 1)"

definition round_double :: "bool \<Rightarrow> int \<Rightarrow> int \<Rightarrow> pyfloat" where
  "round_double neg num den =
     (if num = 0 then Finite 0 0
      else
        let b = bitlen num - bitlen den;
            e0 = (if (if 0 \<le> b then den * 2 ^ nat b \<le> num else den \<le> num * 2 ^ nat (- b))
                  then b else b - 1);
            p = max (e0 - 52) (- 1074);
            m = (if 0 \<le> p then rne_div num (den * 2 ^ nat p)
                 else rne_div (num * 2 ^ nat (- p)) den)
        in if 971 < p \<or> (p = 971 \<and> 2 ^ 53 \<le> m) then (if neg then NInf else PInf)
           else Finite (if neg then - m else m) p)"

definition is_numchar :: "int \<Rightarrow> bool" where
  "is_numchar c = (c_digit c \<or> c = ch CHR ''_'')"

text \<open>
  \<open>float\<close> of an ASCII text: optional sign, then \<open>inf\<close>, \<open>infinity\<close>, \<open>nan\<close> (any case), or
  \<open>[digitpart] "." digitpart | digitpart ["."]\<close> with an optional exponent
  \<open>("e" | "E") [sign] digitpart\<close>.
\<close>

definition float_of_ascii :: "str \<Rightarrow> error + pyfloat" where
  "float_of_ascii s =
     (let (neg, body) = split_sign (map c_lower (c_strip s)) in
      if body = asc ''inf'' \<or> body = asc ''infinity'' then Inr (if neg then NInf else PInf)
      else if body = asc ''nan'' then Inr NaN
      else
        let ip = takeWhile is_numchar body;
            r1 = dropWhile is_numchar body;
            dot = (r1 \<noteq> [] \<and> hd r1 = ch CHR ''.'');
            fp = (if dot then takeWhile is_numchar (tl r1) else []);
            r2 = (if dot then dropWhile is_numchar (tl r1) else r1);
            has_exp = (r2 \<noteq> [] \<and> hd r2 = ch CHR ''e'');
            (eneg, ed) = (if has_exp then split_sign (tl r2) else (False, []))
        in if (ip = [] \<or> digitpart ip) \<and> (fp = [] \<or> digitpart fp) \<and> (ip \<noteq> [] \<or> fp \<noteq> [])
              \<and> (if has_exp then digitpart ed else r2 = [])
           then
             let d = digits_val (ip @ fp);
                 x = (if eneg then - digits_val ed else digits_val ed)
                     - int (length (filter c_digit fp))
             in Inr (if 0 \<le> x then round_double neg (d * 10 ^ nat x) 1
                     else round_double neg d (10 ^ nat (- x)))
           else Inl ValueError)"

definition py_float :: "tables \<Rightarrow> str \<Rightarrow> error + pyfloat" where
  "py_float T s = float_of_ascii (to_ascii T s)"

text \<open>\<open>x * k\<close> for a float \<open>x\<close> and a positive integer \<open>k\<close> that binary64 holds exactly.\<close>

definition float_mul :: "pyfloat \<Rightarrow> int \<Rightarrow> pyfloat" where
  "float_mul x k = (case x of
       Finite m e \<Rightarrow>
         if 0 \<le> e then round_double (m < 0) (\<bar>m\<bar> * k * 2 ^ nat e) 1
         else round_double (m < 0) (\<bar>m\<bar> * k) (2 ^ nat (- e))
     | PInf \<Rightarrow> PInf | NInf \<Rightarrow> NInf | NaN \<Rightarrow> NaN)"

text \<open>\<open>int(x)\<close> for a float: truncation towards zero; infinities and NaN raise.\<close>

definition int_of_float :: "pyfloat \<Rightarrow> error + int" where
  "int_of_float x = (case x of
       Finite m e \<Rightarrow>
         Inr (if 0 \<le> e then m * 2 ^ nat e
              else if 0 \<le> m then m div 2 ^ nat (- e) else - ((- m) div 2 ^ nat (- e)))
     | PInf \<Rightarrow> Inl OverflowError
     | NInf \<Rightarrow> Inl OverflowError
     | NaN \<Rightarrow> Inl ValueError)"

section \<open>\<open>_parse_number\<close>\<close>

definition scaled :: "tables \<Rightarrow> str \<Rightarrow> int \<Rightarrow> error + int" where
  "scaled T t k = (case py_float T t of Inl e \<Rightarrow> Inl e | Inr x \<Rightarrow> int_of_float (float_mul x k))"

definition int_or_float :: "tables \<Rightarrow> str \<Rightarrow> error + int" where
  "int_or_float T t = (case py_int T t of
       Inr n \<Rightarrow> Inr n
     | Inl ValueError \<Rightarrow> (case py_float T t of Inl e \<Rightarrow> Inl e | Inr x \<Rightarrow> int_of_float x)
     | Inl e \<Rightarrow> Inl e)"

definition parse_number :: "tables \<Rightarrow> str \<Rightarrow> error + int option" where
  "parse_number T text0 =
     (let text = replace_char (ch CHR '' '') [] (replace_char (ch CHR '','') (asc ''.'')
                   (strip T (str_lower T text0))) in
      if text = [] \<or> text = asc ''n/a'' \<or> text = asc ''0'' then Inr (Some 0)
      else
        case (if ch CHR ''m'' \<in> set text then scaled T (replace_char (ch CHR ''m'') [] text) 1000000
              else if ch CHR ''k'' \<in> set text then scaled T (replace_char (ch CHR ''k'') [] text) 1000
              else int_or_float T text) of
          Inr n \<Rightarrow> Inr (Some n)
        | Inl ValueError \<Rightarrow> Inr None
        | Inl e \<Rightarrow> Inl e)"

section \<open>The markup tree\<close>

text \<open>
  The tree that the HTML parser hands to the extraction code: an element with its name,
  its attributes (as written in the document; the parser splits \<open>class\<close> at white space)
  and its children, or a piece of text. The document itself is an element whose children
  are the top-level nodes.
\<close>

datatype node = Tag str "(str \<times> str) list" "node list" | Text str

fun children :: "node \<Rightarrow> node list" where
  "children (Tag n a cs) = cs"
| "children (Text s) = []"

fun get_attr :: "node \<Rightarrow> str \<Rightarrow> str option" where
  "get_attr (Tag n a cs) k = map_of a k"
| "get_attr (Text s) k = None"

fun is_tag :: "str \<Rightarrow> node \<Rightarrow> bool" where
  "is_tag name (Tag n a cs) = (n = name)"
| "is_tag name (Text s) = False"

fun descendants :: "node \<Rightarrow> node list" where
  "descendants (Tag n a cs) = concat (map (\<lambda>c. c # descendants c) cs)"
| "descendants (Text s) = []"

fun text_of :: "node \<Rightarrow> str" where
  "text_of (Tag n a cs) = concat (map text_of cs)"
| "text_of (Text s) = s"

fun strings_of :: "node \<Rightarrow> str list" where
  "strings_of (Tag n a cs) = concat (map strings_of cs)"
| "strings_of (Text s) = [s]"

fun split_ws_from :: "tables \<Rightarrow> str \<Rightarrow> str \<Rightarrow> str list" where
  "split_ws_from T cur [] = (if cur = [] then [] else [cur])"
| "split_ws_from T cur (c # cs) =
     (if is_space T c then (if cur = [] then split_ws_from T [] cs else cur # split_ws_from T [] cs)
      else split_ws_from T (cur @ [c]) cs)"

definition classes :: "tables \<Rightarrow> node \<Rightarrow> str list" where
  "classes T n = (case get_attr n (asc ''class'') of None \<Rightarrow> [] | Some v \<Rightarrow> split_ws_from T [] v)"

fun join :: "str \<Rightarrow> str list \<Rightarrow> str" where
  "join sep [] = []"
| "join sep [x] = x"
| "join sep (x # y # ys) = x @ sep @ join sep (y # ys)"

text \<open>
  \<open>find(..., class_=s)\<close>: the element has a \<open>class\<close> attribute, and \<open>s\<close> is one of its
  classes or is all of them joined by single spaces.
\<close>

definition class_is :: "tables \<Rightarrow> str \<Rightarrow> node \<Rightarrow> bool" where
  "class_is T s n = (get_attr n (asc ''class'') \<noteq> None
     \<and> (s \<in> set (classes T n) \<or> join (asc '' '') (classes T n) = s))"

text \<open>A CSS selector \<open>.a.b.c\<close>: every listed class is among the element's classes.\<close>

definition has_classes :: "tables \<Rightarrow> str list \<Rightarrow> node \<Rightarrow> bool" where
  "has_classes T cs n = list_all (\<lambda>c. c \<in> set (classes T n)) cs"

definition attr_is :: "str \<Rightarrow> str \<Rightarrow> node \<Rightarrow> bool" where
  "attr_is k v n = (get_attr n k = Some v)"

definition find_all :: "(node \<Rightarrow> bool) \<Rightarrow> node \<Rightarrow> node list" where
  "find_all p n = filter p (descendants n)"

definition find_children :: "(node \<Rightarrow> bool) \<Rightarrow> node \<Rightarrow> node list" where
  "find_children p n = filter p (children n)"

definition find_first :: "(node \<Rightarrow> bool) \<Rightarrow> node \<Rightarrow> node option" where
  "find_first p n = (case find_all p n of [] \<Rightarrow> None | x # xs \<Rightarrow> Some x)"

definition starts_with :: "str \<Rightarrow> str \<Rightarrow> bool" where
  "starts_with p s = (take (length p) s = p)"

fun contains :: "str \<Rightarrow> str \<Rightarrow> bool" where
  "contains p [] = (p = [])"
| "contains p (c # cs) = (starts_with p (c # cs) \<or> contains p cs)"

text \<open>\<open>re.search\<close>: the leftmost position at which the anchored matcher succeeds.\<close>

fun re_search :: "(str \<Rightarrow> 'a option) \<Rightarrow> str \<Rightarrow> 'a option" where
  "re_search m [] = m []"
| "re_search m (c # cs) = (case m (c # cs) of Some g \<Rightarrow> Some g | None \<Rightarrow> re_search m cs)"

section \<open>Channel cards: \<open>_parse_search_html\<close>\<close>

definition BASE_URL :: str where
  "BASE_URL = asc ''https://tgstat.ru''"

text \<open>
  The pattern \<open>/channel/(@[\w_]+|[\w\d\-]+)/stat\<close> anchored at the start of the text;
  the result is group 1. The character after the group must be \<open>/\<close>; where \<open>/\<close> is in
  neither class the group is the longest run of class characters, and the matcher
  tries the shorter runs after it as the regex engine does.
\<close>

fun run_then :: "(int \<Rightarrow> bool) \<Rightarrow> str \<Rightarrow> str \<Rightarrow> str \<Rightarrow> str option" where
  "run_then p follow acc [] = (if acc \<noteq> [] \<and> follow = [] then Some acc else None)"
| "run_then p follow acc (c # cs) =
     (case (if p c then run_then p follow (acc @ [c]) cs else None) of
        Some g \<Rightarrow> Some g
      | None \<Rightarrow> if acc \<noteq> [] \<and> starts_with follow (c # cs) then Some acc else None)"

definition stat_here :: "tables \<Rightarrow> str \<Rightarrow> str option" where
  "stat_here T s =
     (if starts_with (asc ''/channel/'') s then
        (let r = drop 9 s in
         case (if r \<noteq> [] \<and> hd r = ch CHR ''@''
               then map_option (\<lambda>w. ch CHR ''@'' # w)
                      (run_then (\<lambda>c. is_word T c \<or> c = ch CHR ''_'') (asc ''/stat'') [] (tl r))
               else None) of
           Some g \<Rightarrow> Some g
         | None \<Rightarrow> run_then (\<lambda>c. is_word T c \<or> is_digit T c \<or> c = ch CHR ''-'') (asc ''/stat'') [] r)
      else None)"

definition stat_link :: "tables \<Rightarrow> node \<Rightarrow> bool" where
  "stat_link T n = (is_tag (asc ''a'') n \<and>
     (case get_attr n (asc ''href'') of None \<Rightarrow> False | Some h \<Rightarrow> re_search (stat_here T) h \<noteq> None))"

text \<open>The pattern \<open>([\d\s,km.]+)\<close> anchored at the start of the text.\<close>

definition is_numtok :: "tables \<Rightarrow> int \<Rightarrow> bool" where
  "is_numtok T c = (is_digit T c \<or> is_space T c \<or> c = ch CHR '','' \<or> c = ch CHR ''k''
     \<or> c = ch CHR ''m'' \<or> c = ch CHR ''.'')"

definition numtok_here :: "tables \<Rightarrow> str \<Rightarrow> str option" where
  "numtok_here T s = (let w = takeWhile (is_numtok T) s in if w = [] then None else Some w)"

record channel =
  tgstat_url :: str
  username :: "str option"
  title :: str
  avatar_url :: "str option"
  subscribers :: "int option"
  subscribers_str :: str
  avg_reach :: "int option"
  avg_reach_str :: str
  ci_index :: "int option"
  ci_index_str :: str
  category :: str

text \<open>\<open>'https:' + url\<close> for a protocol-relative URL.\<close>

definition abs_scheme :: "str option \<Rightarrow> str option" where
  "abs_scheme u = (case u of
       None \<Rightarrow> None
     | Some v \<Rightarrow> if v \<noteq> [] \<and> starts_with (asc ''//'') v then Some (asc ''https:'' @ v) else Some v)"

text \<open>\<open>tag['src'] if tag and tag.get('src') else None\<close>\<close>

definition nonempty_attr :: "node option \<Rightarrow> str \<Rightarrow> str option" where
  "nonempty_attr t k = (case t of
       None \<Rightarrow> None
     | Some n \<Rightarrow> (case get_attr n k of None \<Rightarrow> None | Some v \<Rightarrow> if v = [] then None else Some v))"

text \<open>
  One statistics column: \<open>col.select_one('h4').text.strip()\<close>, with the spaces removed
  when \<open>squeeze\<close> is set, and its number. A missing \<open>h4\<close> raises \<open>AttributeError\<close>, which
  the source passes over: the column then leaves the record as it is, \<open>Inr None\<close> here.
  An error of \<open>_parse_number\<close> is not caught there.
\<close>

definition stat_col :: "tables \<Rightarrow> bool \<Rightarrow> node \<Rightarrow> error + (str \<times> int option) option" where
  "stat_col T squeeze col = (case find_first (is_tag (asc ''h4'')) col of
       None \<Rightarrow> Inr None
     | Some h \<Rightarrow>
         (let t0 = strip T (text_of h);
              t = (if squeeze then replace_char (ch CHR '' '') [] t0 else t0) in
          case parse_number T t of Inl e \<Rightarrow> Inl e | Inr v \<Rightarrow> Inr (Some (t, v))))"

definition set_subscribers :: "(str \<times> int option) option \<Rightarrow> channel \<Rightarrow> channel" where
  "set_subscribers r c = (case r of None \<Rightarrow> c
     | Some (t, v) \<Rightarrow> c\<lparr>subscribers := v, subscribers_str := t\<rparr>)"

definition set_avg_reach :: "(str \<times> int option) option \<Rightarrow> channel \<Rightarrow> channel" where
  "set_avg_reach r c = (case r of None \<Rightarrow> c
     | Some (t, v) \<Rightarrow> c\<lparr>avg_reach := v, avg_reach_str := t\<rparr>)"

definition set_ci_index :: "(str \<times> int option) option \<Rightarrow> channel \<Rightarrow> channel" where
  "set_ci_index r c = (case r of None \<Rightarrow> c
     | Some (t, v) \<Rightarrow> c\<lparr>ci_index := v, ci_index_str := t\<rparr>)"

text \<open>The three-column statistics block of a card.\<close>

definition card_stats :: "tables \<Rightarrow> node \<Rightarrow> channel \<Rightarrow> error + channel" where
  "card_stats T card_tag c =
     (case find_first (has_classes T [asc ''col'', asc ''col-12'', asc ''col-sm-7'']) card_tag of
       None \<Rightarrow> Inr c
     | Some stats_container \<Rightarrow>
         (case find_all (has_classes T [asc ''col'', asc ''col-4'', asc ''pt-1'']) stats_container of
            [c0, c1, c2] \<Rightarrow>
              (case stat_col T True c0 of Inl e \<Rightarrow> Inl e | Inr r0 \<Rightarrow>
               case stat_col T False c1 of Inl e \<Rightarrow> Inl e | Inr r1 \<Rightarrow>
               case stat_col T True c2 of Inl e \<Rightarrow> Inl e | Inr r2 \<Rightarrow>
                 Inr (set_ci_index r2 (set_avg_reach r1 (set_subscribers r0 c))))
          | _ \<Rightarrow> Inr c))"

text \<open>The fallback for the subscriber count, taken when the count is still \<open>None\<close>.\<close>

definition card_subs_fallback :: "tables \<Rightarrow> node \<Rightarrow> channel \<Rightarrow> error + channel" where
  "card_subs_fallback T card_tag c =
     (if subscribers c \<noteq> None then Inr c
      else case find_first (\<lambda>n. is_tag (asc ''div'') n
                 \<and> class_is T (asc ''text-truncate font-14 text-dark'') n) card_tag of
        None \<Rightarrow> Inr c
      | Some subs_div \<Rightarrow>
          (case re_search (numtok_here T) (text_of subs_div) of
             None \<Rightarrow> Inr c
           | Some g \<Rightarrow>
               (let subs_text = replace_char (ch CHR '' '') [] (strip T g) in
                case parse_number T subs_text of
                  Inl e \<Rightarrow> Inl e
                | Inr v \<Rightarrow> Inr (c\<lparr>subscribers := v, subscribers_str := subs_text\<rparr>))))"

text \<open>
  The body of the loop over the cards, inside its \<open>try\<close>: \<open>Inr None\<close> is the \<open>continue\<close>
  of a card with no stat link, \<open>Inl e\<close> an exception raised on the way.
\<close>

definition parse_card :: "tables \<Rightarrow> node \<Rightarrow> error + channel option" where
  "parse_card T card_tag = (case find_first (stat_link T) card_tag of
       None \<Rightarrow> Inr None
     | Some link_tag \<Rightarrow>
         (let href = (case get_attr link_tag (asc ''href'') of Some h \<Rightarrow> h | None \<Rightarrow> []);
              url = (if starts_with (asc ''/'') href then BASE_URL @ href
                     else if starts_with (asc ''http'') href then href
                     else BASE_URL @ asc ''/'' @ href);
              title_tag = find_first (\<lambda>n. is_tag (asc ''div'') n
                 \<and> class_is T (asc ''text-truncate font-16 text-dark mt-n1'') n) card_tag;
              img_tag = find_first (\<lambda>n. is_tag (asc ''img'') n
                 \<and> class_is T (asc ''img-thumbnail'') n) card_tag;
              category_tag = find_first (\<lambda>n. is_tag (asc ''span'') n
                 \<and> class_is T (asc ''border rounded bg-light px-1'') n) card_tag;
              c = \<lparr>tgstat_url = url,
                   username = re_search (stat_here T) href,
                   title = (case title_tag of Some t \<Rightarrow> strip T (text_of t) | None \<Rightarrow> asc ''N/A''),
                   avatar_url = abs_scheme (nonempty_attr img_tag (asc ''src'')),
                   subscribers = None, subscribers_str = asc ''N/A'',
                   avg_reach = None, avg_reach_str = asc ''N/A'',
                   ci_index = None, ci_index_str = asc ''N/A'',
                   category = asc ''N/A''\<rparr>
          in case card_stats T card_tag c of Inl e \<Rightarrow> Inl e | Inr c1 \<Rightarrow>
             case card_subs_fallback T card_tag c1 of Inl e \<Rightarrow> Inl e | Inr c2 \<Rightarrow>
               Inr (Some (c2\<lparr>category := (case category_tag of
                   Some t \<Rightarrow> strip T (text_of t) | None \<Rightarrow> asc ''N/A'')\<rparr>))))"

text \<open>
  The loop: a card that raised is logged and skipped (\<open>except Exception: continue\<close>), a
  card with no stat link is skipped, any other card appends its record.
\<close>

fun parse_cards :: "tables \<Rightarrow> node list \<Rightarrow> channel list" where
  "parse_cards T [] = []"
| "parse_cards T (card_tag # cards) = (case parse_card T card_tag of
       Inl e \<Rightarrow> parse_cards T cards
     | Inr None \<Rightarrow> parse_cards T cards
     | Inr (Some c) \<Rightarrow> c # parse_cards T cards)"

definition channel_cards :: "tables \<Rightarrow> node \<Rightarrow> node list" where
  "channel_cards T soup =
     (let container = (case find_first (\<lambda>n. is_tag (asc ''div'') n
                              \<and> attr_is (asc ''id'') (asc ''channels-list-holder'') n) soup of
                         Some t \<Rightarrow> t | None \<Rightarrow> soup);
          direct = find_children (\<lambda>n. is_tag (asc ''div'') n \<and> class_is T (asc ''peer-item-row'') n) container
      in if direct = [] then find_all (\<lambda>n. is_tag (asc ''div'') n \<and> class_is T (asc ''peer-item-row'') n) soup
         else direct)"

definition parse_search_html :: "tables \<Rightarrow> node \<Rightarrow> channel list" where
  "parse_search_html T soup = parse_cards T (channel_cards T soup)"

section \<open>Post cards: \<open>_extract_post_id\<close> and \<open>_parse_posts_html\<close>\<close>

text \<open>The pattern \<open>post-(\d+)\<close> anchored at the start of the text; the result is group 1.\<close>

definition post_id_here :: "tables \<Rightarrow> str \<Rightarrow> str option" where
  "post_id_here T s =
     (if starts_with (asc ''post-'') s then
        (let d = takeWhile (is_digit T) (drop 5 s) in if d = [] then None else Some d)
      else None)"

text \<open>\<open>int(match.group(1)) if match else None\<close>\<close>

definition extract_post_id :: "tables \<Rightarrow> node \<Rightarrow> error + int option" where
  "extract_post_id T post_tag =
     (case re_search (post_id_here T)
             (case get_attr post_tag (asc ''id'') of Some v \<Rightarrow> v | None \<Rightarrow> []) of
        None \<Rightarrow> Inr None
      | Some g \<Rightarrow> (case py_int T g of Inl e \<Rightarrow> Inl e | Inr n \<Rightarrow> Inr (Some n)))"

text \<open>
  The tooltip texts that the source looks for, in the order of their use (views, shares,
  forwards, permanent link, Telegram link), as code points.
\<close>

definition views_tip :: str where
  "views_tip =
   [1050, 1086, 1083, 1080, 1095, 1077, 1089, 1090, 1074, 1086, 32, 1087, 1088, 1086, 1089,
    1084, 1086, 1090, 1088, 1086, 1074, 32, 1087, 1091, 1073, 1083, 1080, 1082, 1072, 1094,
    1080, 1080]"

definition shares_tip :: str where
  "shares_tip =
   [1055, 1086, 1076, 1077, 1083, 1080, 1083, 1080, 1089, 1100]"

definition forwards_tip :: str where
  "forwards_tip =
   [1055, 1077, 1088, 1077, 1089, 1099, 1083, 1086, 1082, 32, 1074, 1089, 1077, 1075, 1086]"

definition permalink_tip :: str where
  "permalink_tip =
   [1055, 1086, 1089, 1090, 1086, 1103, 1085, 1085, 1072, 1103, 32, 1089, 1089, 1099, 1083,
    1082, 1072, 32, 1085, 1072, 32, 1087, 1091, 1073, 1083, 1080, 1082, 1072, 1094, 1080,
    1102]"

definition open_tg_tip :: str where
  "open_tg_tip =
   [1054, 1090, 1082, 1088, 1099, 1090, 1100, 32, 1074, 32, 84, 101, 108, 101, 103, 114,
    97, 109]"

text \<open>The keys that the source sets only when the post has a \<open>post-body\<close> element.\<close>

record post_body =
  post_text :: str
  has_photo :: bool
  has_video :: bool
  has_document :: bool
  image_url :: "str option"
  video_url :: "str option"

text \<open>A field of type \<open>option\<close> that the source sets conditionally is \<open>None\<close> when the key is absent.\<close>

record post =
  post_id :: "int option"
  datetime_str :: "str option"
  body :: "post_body option"
  views_str :: str
  views :: "int option"
  shares_str :: str
  shares :: "int option"
  forwards_str :: str
  forwards :: "int option"
  tgstat_post_url :: "str option"
  telegram_post_url :: "str option"

definition div_class :: "tables \<Rightarrow> str \<Rightarrow> node \<Rightarrow> bool" where
  "div_class T c n = (is_tag (asc ''div'') n \<and> class_is T c n)"

text \<open>\<open>get_text(separator='\n', strip=True)\<close>\<close>

definition get_text_lines :: "tables \<Rightarrow> node \<Rightarrow> str" where
  "get_text_lines T n = join [10] (filter (\<lambda>t. t \<noteq> []) (map (strip T) (strings_of n)))"

definition parse_post_body :: "tables \<Rightarrow> node \<Rightarrow> post_body" where
  "parse_post_body T b =
     (let text_parts = find_all (div_class T (asc ''post-text'')) b;
          img_tag = find_first (\<lambda>n. is_tag (asc ''img'') n \<and> class_is T (asc ''post-img-img'') n) b;
          source_tag = (case find_first (is_tag (asc ''video'')) b of
                          None \<Rightarrow> None | Some v \<Rightarrow> find_first (is_tag (asc ''source'')) v)
      in \<lparr>post_text = strip T (join [10] (filter (\<lambda>t. t \<noteq> []) (map (get_text_lines T) text_parts))),
          has_photo = (find_first (div_class T (asc ''post-img'')) b \<noteq> None
                       \<or> find_first (div_class T (asc ''carousel'')) b \<noteq> None),
          has_video = (find_first (div_class T (asc ''wrapper-thumbnail'')) b \<noteq> None
                       \<or> find_first (div_class T (asc ''wrapper-video'')) b \<noteq> None),
          has_document = (asc ''isDocument'' \<in> set (classes T b)),
          image_url = abs_scheme (nonempty_attr img_tag (asc ''src'')),
          video_url = abs_scheme (nonempty_attr source_tag (asc ''src''))\<rparr>)"

text \<open>A CSS selector \<open>name.btn[data-original-title*="tip"]\<close>.\<close>

definition btn_with_tip :: "tables \<Rightarrow> str \<Rightarrow> str \<Rightarrow> node \<Rightarrow> bool" where
  "btn_with_tip T name tip n = (is_tag name n \<and> has_classes T [asc ''btn''] n \<and>
     (case get_attr n (asc ''data-original-title'') of None \<Rightarrow> False | Some v \<Rightarrow> contains tip v))"

text \<open>
  One counter of the statistics row: the stripped text of the element and its number;
  \<open>Inr None\<close> when the element is absent, \<open>Inl e\<close> when \<open>_parse_number\<close> raises.
\<close>

definition post_stat :: "tables \<Rightarrow> str \<Rightarrow> str \<Rightarrow> node \<Rightarrow> error + (str \<times> int option) option" where
  "post_stat T name tip stats_row = (case find_first (btn_with_tip T name tip) stats_row of
       None \<Rightarrow> Inr None
     | Some l \<Rightarrow> (case parse_number T (strip T (text_of l)) of
                   Inl e \<Rightarrow> Inl e | Inr v \<Rightarrow> Inr (Some (strip T (text_of l), v))))"

definition set_views :: "(str \<times> int option) option \<Rightarrow> post \<Rightarrow> post" where
  "set_views r p = (case r of None \<Rightarrow> p | Some (t, v) \<Rightarrow> p\<lparr>views_str := t, views := v\<rparr>)"

definition set_shares :: "(str \<times> int option) option \<Rightarrow> post \<Rightarrow> post" where
  "set_shares r p = (case r of None \<Rightarrow> p | Some (t, v) \<Rightarrow> p\<lparr>shares_str := t, shares := v\<rparr>)"

definition set_forwards :: "(str \<times> int option) option \<Rightarrow> post \<Rightarrow> post" where
  "set_forwards r p = (case r of None \<Rightarrow> p | Some (t, v) \<Rightarrow> p\<lparr>forwards_str := t, forwards := v\<rparr>)"

definition post_stats :: "tables \<Rightarrow> node \<Rightarrow> post \<Rightarrow> error + post" where
  "post_stats T post_tag p =
     (case find_first (has_classes T [asc ''col'', asc ''col-12'', asc ''d-flex'']) post_tag of
       None \<Rightarrow> Inr p
     | Some stats_row \<Rightarrow>
         (case post_stat T (asc ''a'') views_tip stats_row of Inl e \<Rightarrow> Inl e | Inr r0 \<Rightarrow>
          case post_stat T (asc ''a'') shares_tip stats_row of Inl e \<Rightarrow> Inl e | Inr r1 \<Rightarrow>
          case post_stat T (asc ''span'') forwards_tip stats_row of Inl e \<Rightarrow> Inl e | Inr r2 \<Rightarrow>
            Inr (set_forwards r2 (set_shares r1 (set_views r0 p)))))"

text \<open>The pattern \<open>https://t(?:elegram)?\.(?:me|org)/|https://ttttt\.me/\<close>, searched in the text.\<close>

definition telegram_href :: "str \<Rightarrow> bool" where
  "telegram_href h = (contains (asc ''https://t.me/'') h \<or> contains (asc ''https://t.org/'') h
     \<or> contains (asc ''https://telegram.me/'') h \<or> contains (asc ''https://telegram.org/'') h
     \<or> contains (asc ''https://ttttt.me/'') h)"

definition dropdown_link :: "tables \<Rightarrow> node \<Rightarrow> bool" where
  "dropdown_link T n = (is_tag (asc ''a'') n \<and> class_is T (asc ''dropdown-item'') n
     \<and> attr_is (asc ''target'') (asc ''_blank'') n
     \<and> (case get_attr n (asc ''href'') of None \<Rightarrow> False | Some h \<Rightarrow> telegram_href h))"

definition open_tg_link :: "node \<Rightarrow> bool" where
  "open_tg_link n = (is_tag (asc ''a'') n \<and>
     (case get_attr n (asc ''title'') of None \<Rightarrow> False | Some x \<Rightarrow> x \<noteq> [] \<and> contains open_tg_tip x))"

text \<open>
  The body of the loop over the post cards, inside its \<open>try\<close>; the id comes first, and
  an exception of \<open>_extract_post_id\<close> or of a counter leaves the body.
\<close>

definition parse_post :: "tables \<Rightarrow> node \<Rightarrow> error + post" where
  "parse_post T post_tag =
     (case extract_post_id T post_tag of
        Inl e \<Rightarrow> Inl e
      | Inr the_id \<Rightarrow>
     (let header = find_first (div_class T (asc ''post-header'')) post_tag;
          body_tag = find_first (div_class T (asc ''post-body'')) post_tag;
          link_icon = find_first (\<lambda>n. is_tag (asc ''a'') n
             \<and> attr_is (asc ''data-original-title'') permalink_tip n) post_tag;
          p = \<lparr>post_id = the_id,
               datetime_str = (case header of
                   None \<Rightarrow> None
                 | Some h \<Rightarrow> (case find_first (is_tag (asc ''small'')) h of
                       Some t \<Rightarrow> Some (strip T (text_of t)) | None \<Rightarrow> Some (asc ''N/A''))),
               body = map_option (parse_post_body T) body_tag,
               views_str = asc ''N/A'', views = None,
               shares_str = asc ''N/A'', shares = None,
               forwards_str = asc ''N/A'', forwards = None,
               tgstat_post_url = None,
               telegram_post_url = None\<rparr>
      in case post_stats T post_tag p of Inl e \<Rightarrow> Inl e | Inr p1 \<Rightarrow>
           Inr (p1\<lparr>tgstat_post_url := (case nonempty_attr link_icon (asc ''href'') of
                        None \<Rightarrow> None
                      | Some href \<Rightarrow> Some (if starts_with (asc ''/'') href then BASE_URL @ href else href)),
                   telegram_post_url := (case find_first (dropdown_link T) post_tag of
                        Some l \<Rightarrow> get_attr l (asc ''href'')
                      | None \<Rightarrow> nonempty_attr (find_first open_tg_link post_tag) (asc ''href''))\<rparr>)))"

text \<open>The loop: a post card that raised is logged and skipped, any other appends its record.\<close>

fun parse_posts :: "tables \<Rightarrow> node list \<Rightarrow> post list" where
  "parse_posts T [] = []"
| "parse_posts T (post_tag # tags) = (case parse_post T post_tag of
       Inl e \<Rightarrow> parse_posts T tags
     | Inr p \<Rightarrow> p # parse_posts T tags)"

definition post_containers :: "tables \<Rightarrow> node \<Rightarrow> node list" where
  "post_containers T soup =
     (let container = (case find_first (div_class T (asc ''posts-list'')) soup of
                         Some t \<Rightarrow> t | None \<Rightarrow> soup);
          direct = find_children (div_class T (asc ''post-container'')) container
      in if direct = [] then find_all (div_class T (asc ''post-container'')) soup else direct)"

definition parse_posts_html :: "tables \<Rightarrow> node \<Rightarrow> post list" where
  "parse_posts_html T soup = parse_posts T (post_containers T soup)"

section \<open>The session token: \<open>__init__\<close> and \<open>_refresh_csrf_token\<close>\<close>

text \<open>
  The text of a response, or of the \<open>html\<close> field of an envelope: empty, or not empty
  and then given by its parse tree.
\<close>

datatype payload = Empty | Markup node

definition soup_of :: "payload \<Rightarrow> node" where
  "soup_of t = (case t of Empty \<Rightarrow> Tag (asc ''[document]'') [] [] | Markup n \<Rightarrow> n)"

text \<open>
  The outcome of a GET: \<open>GetFailed\<close> is any \<open>RequestException\<close> (no connection, a
  timeout, a status that \<open>raise_for_status\<close> rejects).
\<close>

datatype get_reply = GetFailed | GetOk payload

record session =
  csrf_token_form :: "str option"

definition meta_token :: "node \<Rightarrow> str option" where
  "meta_token soup = (case find_first (\<lambda>n. is_tag (asc ''meta'') n
                            \<and> attr_is (asc ''name'') (asc ''csrf-token'') n) soup of
       None \<Rightarrow> None | Some meta_tag \<Rightarrow> get_attr meta_tag (asc ''content''))"

definition input_token :: "node \<Rightarrow> str option" where
  "input_token soup = (case find_first (\<lambda>n. is_tag (asc ''input'') n
                             \<and> attr_is (asc ''name'') (asc ''_tgstat_csrk'') n) soup of
       None \<Rightarrow> None | Some input_tag \<Rightarrow> get_attr input_tag (asc ''value''))"

definition refresh_csrf_token :: "get_reply \<Rightarrow> session \<Rightarrow> bool \<times> session" where
  "refresh_csrf_token g s = (case g of
       GetFailed \<Rightarrow> (False, s\<lparr>csrf_token_form := None\<rparr>)
     | GetOk t \<Rightarrow>
         (case meta_token (soup_of t) of
            Some tok \<Rightarrow> (True, s\<lparr>csrf_token_form := Some tok\<rparr>)
          | None \<Rightarrow>
              (case input_token (soup_of t) of
                 Some tok \<Rightarrow> (True, s\<lparr>csrf_token_form := Some tok\<rparr>)
               | None \<Rightarrow> (False, s\<lparr>csrf_token_form := None\<rparr>))))"

datatype init_error = ConnectionError

definition init :: "get_reply \<Rightarrow> init_error + session" where
  "init g = (case refresh_csrf_token g \<lparr>csrf_token_form = None\<rparr> of
       (True, s) \<Rightarrow> Inr s
     | (False, s) \<Rightarrow> Inl ConnectionError)"

section \<open>Requests: \<open>_make_search_request\<close> and \<open>_make_more_posts_request\<close>\<close>

text \<open>
  An integer field of the JSON envelope: absent, \<open>null\<close>, or an integer.
  \<open>d.get(key, default)\<close> gives the default for an absent key only, and Python's \<open>None\<close>
  for \<open>null\<close>.
\<close>

datatype jint = JAbsent | JNull | JInt int

definition get_or :: "jint \<Rightarrow> int \<Rightarrow> int option" where
  "get_or j d = (case j of JAbsent \<Rightarrow> Some d | JNull \<Rightarrow> None | JInt n \<Rightarrow> Some n)"

text \<open>
  The JSON envelope: the decoded body is taken to be an object. An absent or \<open>null\<close>
  \<open>hasMore\<close> reads as \<open>False\<close> and an absent or empty \<open>html\<close> as \<open>Empty\<close>, as the source's
  tests of them do.
\<close>

record envelope =
  status :: "str option"
  html :: payload
  hasMore :: bool
  nextPage :: jint
  nextOffset :: jint

text \<open>The outcome of a POST: a \<open>RequestException\<close>, a body that is not JSON, or an envelope.\<close>

datatype reply = TransportFailure | Undecodable | Json envelope

text \<open>The value of the request method once it has posted: \<open>None\<close> for both failures.\<close>

definition request_result :: "reply \<Rightarrow> envelope option" where
  "request_result r = (case r of
       TransportFailure \<Rightarrow> None | Undecodable \<Rightarrow> None | Json env \<Rightarrow> Some env)"

text \<open>\<open>not self.csrf_token_form\<close>\<close>

definition token_missing :: "session \<Rightarrow> bool" where
  "token_missing s = (csrf_token_form s = None \<or> csrf_token_form s = Some [])"

text \<open>
  The upstream, as far as a run meets it: the outcomes of the GETs that refresh the
  token and the outcomes of the POSTs, each in the order of the requests. A request
  that finds its list empty has no outcome, and the run no value (\<open>None\<close>).
\<close>

record upstream =
  refreshes :: "get_reply list"
  replies :: "reply list"

text \<open>
  Both request methods begin alike: with no token they refresh first and return \<open>None\<close>
  without posting when that fails; then they post with the stored token. The result is
  the returned value, the session, what is left of the upstream, and the tokens of the
  POSTs issued (none or one).
\<close>

definition post_with_token ::
  "session \<Rightarrow> upstream \<Rightarrow> (envelope option \<times> session \<times> upstream \<times> str option list) option" where
  "post_with_token s u = (case replies u of
       [] \<Rightarrow> None
     | r # rs \<Rightarrow> Some (request_result r, s, u\<lparr>replies := rs\<rparr>, [csrf_token_form s]))"

definition guarded_post ::
  "session \<Rightarrow> upstream \<Rightarrow> (envelope option \<times> session \<times> upstream \<times> str option list) option" where
  "guarded_post s u =
     (if token_missing s then
        (case refreshes u of
           [] \<Rightarrow> None
         | g # gs \<Rightarrow>
             (case refresh_csrf_token g s of
                (False, s1) \<Rightarrow> Some (None, s1, u\<lparr>refreshes := gs\<rparr>, [])
              | (True, s1) \<Rightarrow> post_with_token s1 (u\<lparr>refreshes := gs\<rparr>)))
      else post_with_token s u)"

definition make_search_request ::
  "session \<Rightarrow> upstream \<Rightarrow> (envelope option \<times> session \<times> upstream \<times> str option list) option" where
  "make_search_request = guarded_post"

definition make_more_posts_request ::
  "session \<Rightarrow> upstream \<Rightarrow> (envelope option \<times> session \<times> upstream \<times> str option list) option" where
  "make_more_posts_request = guarded_post"

section \<open>The drivers: \<open>search_channels\<close> and \<open>get_channel_posts\<close>\<close>

text \<open>
  A driver returns a value or raises. Beside that it gives the session it leaves and
  the POSTs it issued, each with the page index or cursor and the offset it was sent
  with. The query and the sort key only travel in the requests, and the delays take
  time only: they are left out.
\<close>

datatype 'a outcome = Returned 'a | Raised error

definition sent ::
  "bool \<Rightarrow> 'q \<Rightarrow> ('a \<times> session \<times> 'q list) option \<Rightarrow> ('a \<times> session \<times> 'q list) option" where
  "sent posted q res = (case res of
       None \<Rightarrow> None
     | Some (a, s, qs) \<Rightarrow> Some (a, s, if posted then q # qs else qs))"

text \<open>
  The loop of \<open>search_channels\<close>, from the state at the top of an iteration. The value
  \<open>None\<close> inside \<open>Returned\<close> is Python's \<open>None\<close>. \<open>current_offset\<close> is \<open>None\<close> after a
  \<open>null\<close> \<open>nextOffset\<close>; adding to it, and comparing a \<open>null\<close> page index, raise
  \<open>TypeError\<close>.
\<close>

function search_loop ::
  "tables \<Rightarrow> int \<Rightarrow> session \<Rightarrow> upstream \<Rightarrow> channel list \<Rightarrow> int \<Rightarrow> int option \<Rightarrow> bool
     \<Rightarrow> (channel list option outcome \<times> session \<times> (int \<times> int option) list) option"
where
  "search_loop T max_pages s u all_channels current_page current_offset has_more =
     (if current_page < max_pages \<and> has_more then
        (case make_search_request s u of
           None \<Rightarrow> None
         | Some (search_result, s1, u1, toks) \<Rightarrow>
             sent (toks \<noteq> []) (current_page, current_offset)
               (case search_result of
                  None \<Rightarrow>
                    Some (if current_page = 0 then Returned None else Returned (Some all_channels), s1, [])
                | Some env \<Rightarrow>
                    if status env \<noteq> Some (asc ''ok'') then
                      Some (if current_page = 0 then Returned None else Returned (Some all_channels), s1, [])
                    else (case html env of
                       Empty \<Rightarrow> Some (Returned (Some all_channels), s1, [])
                     | Markup soup \<Rightarrow>
                         (let parsed_channels = parse_search_html T soup in
                          if parsed_channels = [] \<and> current_page = 0 then Some (Returned (Some []), s1, [])
                          else (case current_offset of
                             None \<Rightarrow> Some (Raised TypeError, s1, [])
                           | Some off \<Rightarrow>
                               (case get_or (nextPage env) (current_page + 1) of
                                  None \<Rightarrow> Some (Raised TypeError, s1, [])
                                | Some next_page \<Rightarrow>
                                    search_loop T max_pages s1 u1 (all_channels @ parsed_channels)
                                      next_page (get_or (nextOffset env) (off + 30)) (hasMore env)))))))
      else Some (Returned (Some all_channels), s, []))"
  by pat_completeness auto
termination
proof (relation "measure (\<lambda>(T, mp, s, u, acc, page, off, hm). length (replies u))")
  show "wf (measure (\<lambda>(T, mp, s, u, acc, page, off, hm). length (replies u)))"
    by simp
next
  fix T :: tables and max_pages :: int and s :: session and u :: upstream
    and all_channels :: "channel list" and current_page :: int and current_offset :: "int option"
    and has_more :: bool and x2 search_result y s1 ya u1 toks env soup parsed off next_page
  assume "make_search_request s u = Some x2" and "(search_result, y) = x2" and "(s1, ya) = y"
    and "(u1, toks) = ya" and "search_result = Some env"
  then have "make_search_request s u = Some (Some env, s1, u1, toks)"
    by auto
  then have "length (replies u1) < length (replies u)"
    by (auto simp: make_search_request_def guarded_post_def post_with_token_def request_result_def
        split: if_splits list.splits prod.splits bool.splits reply.splits)
  then show "((T, max_pages, s1, u1, all_channels @ parsed, next_page,
               get_or (nextOffset env) (off + 30), hasMore env),
              T, max_pages, s, u, all_channels, current_page, current_offset, has_more)
             \<in> measure (\<lambda>(T, mp, s, u, acc, page, off, hm). length (replies u))"
    by simp
qed

declare search_loop.simps [simp del]

definition search_channels ::
  "tables \<Rightarrow> int \<Rightarrow> session \<Rightarrow> upstream
     \<Rightarrow> (channel list option outcome \<times> session \<times> (int \<times> int option) list) option" where
  "search_channels T max_pages s u = search_loop T max_pages s u [] 0 (Some 0) True"

text \<open>\<open>xs[:n]\<close>: a negative \<open>n\<close> counts from the end.\<close>

definition py_take :: "int \<Rightarrow> 'a list \<Rightarrow> 'a list" where
  "py_take n xs = (if 0 \<le> n then take (nat n) xs else take (nat (int (length xs) + n)) xs)"

text \<open>The truth value of a cursor: \<open>None\<close> and \<open>0\<close> are false.\<close>

definition cursor_ok :: "int option \<Rightarrow> bool" where
  "cursor_ok c = (c \<noteq> None \<and> c \<noteq> Some 0)"

text \<open>
  The loop of \<open>get_channel_posts\<close>; its value is \<open>all_posts\<close> when the loop is left.
  \<open>next_page_id\<close> is \<open>None\<close> for an absent and for a \<open>null\<close> \<open>nextPage\<close>.
\<close>

function posts_loop ::
  "tables \<Rightarrow> int \<Rightarrow> session \<Rightarrow> upstream \<Rightarrow> post list \<Rightarrow> int option \<Rightarrow> int option \<Rightarrow> bool
     \<Rightarrow> (post list outcome \<times> session \<times> (int option \<times> int option) list) option"
where
  "posts_loop T max_posts s u all_posts last_post_id current_offset has_more =
     (if int (length all_posts) < max_posts \<and> has_more \<and> cursor_ok last_post_id then
        (case make_more_posts_request s u of
           None \<Rightarrow> None
         | Some (more_posts_result, s1, u1, toks) \<Rightarrow>
             sent (toks \<noteq> []) (last_post_id, current_offset)
               (case more_posts_result of
                  None \<Rightarrow> Some (Returned all_posts, s1, [])
                | Some env \<Rightarrow>
                    if status env \<noteq> Some (asc ''ok'') then Some (Returned all_posts, s1, [])
                    else (case html env of
                       Empty \<Rightarrow> Some (Returned all_posts, s1, [])
                     | Markup soup \<Rightarrow>
                         (let new_posts = parse_posts_html T soup in
                          if new_posts = [] then Some (Returned all_posts, s1, [])
                          else
                            (let next_id = (case nextPage env of
                                               JInt next_page_id \<Rightarrow> Some next_page_id
                                             | _ \<Rightarrow> post_id (last new_posts))
                             in case current_offset of
                                  None \<Rightarrow> Some (Raised TypeError, s1, [])
                                | Some off \<Rightarrow>
                                    if \<not> cursor_ok next_id then Some (Returned (all_posts @ new_posts), s1, [])
                                    else posts_loop T max_posts s1 u1 (all_posts @ new_posts) next_id
                                           (get_or (nextOffset env) (off + int (length new_posts)))
                                           (hasMore env))))))
      else Some (Returned all_posts, s, []))"
  by pat_completeness auto
termination
proof (relation "measure (\<lambda>(T, mp, s, u, acc, c, off, hm). length (replies u))")
  show "wf (measure (\<lambda>(T, mp, s, u, acc, c, off, hm). length (replies u)))"
    by simp
next
  fix T :: tables and max_posts :: int and s :: session and u :: upstream
    and all_posts :: "post list" and last_post_id current_offset :: "int option"
    and has_more :: bool and x2 more_posts_result y s1 ya u1 toks env soup new_posts next_id off
  assume "make_more_posts_request s u = Some x2" and "(more_posts_result, y) = x2"
    and "(s1, ya) = y" and "(u1, toks) = ya" and "more_posts_result = Some env"
  then have "make_more_posts_request s u = Some (Some env, s1, u1, toks)"
    by auto
  then have "length (replies u1) < length (replies u)"
    by (auto simp: make_more_posts_request_def guarded_post_def post_with_token_def request_result_def
        split: if_splits list.splits prod.splits bool.splits reply.splits)
  then show "((T, max_posts, s1, u1, all_posts @ new_posts, next_id,
               get_or (nextOffset env) (off + int (length new_posts)), hasMore env),
              T, max_posts, s, u, all_posts, last_post_id, current_offset, has_more)
             \<in> measure (\<lambda>(T, mp, s, u, acc, c, off, hm). length (replies u))"
    by simp
qed

declare posts_loop.simps [simp del]

text \<open>
  \<open>get_channel_posts\<close>: \<open>channel\<close> is the handle and \<open>initial\<close> the outcome of the GET of
  the channel's page.
\<close>

definition get_channel_posts ::
  "tables \<Rightarrow> str \<Rightarrow> int \<Rightarrow> get_reply \<Rightarrow> session \<Rightarrow> upstream
     \<Rightarrow> (post list option outcome \<times> session \<times> (int option \<times> int option) list) option" where
  "get_channel_posts T channel max_posts initial s u =
     (if channel = [] then Some (Returned None, s, [])
      else case initial of
        GetFailed \<Rightarrow> Some (Returned None, s, [])
      | GetOk Empty \<Rightarrow> Some (Returned None, s, [])
      | GetOk (Markup soup) \<Rightarrow>
          (let all_posts = parse_posts_html T soup in
           if all_posts = [] then Some (Returned (Some []), s, [])
           else case posts_loop T max_posts s u all_posts (post_id (last all_posts))
                       (Some (int (length all_posts))) True of
                  None \<Rightarrow> None
                | Some (Returned ps, s1, qs) \<Rightarrow> Some (Returned (Some (py_take max_posts ps)), s1, qs)
                | Some (Raised e, s1, qs) \<Rightarrow> Some (Raised e, s1, qs)))"

section \<open>Example documents\<close>

text \<open>A document with the given top-level nodes.\<close>

definition doc :: "node list \<Rightarrow> node" where
  "doc ns = Tag (asc ''[document]'') [] ns"

text \<open>
  A channel card with its stat link, one without, and one whose subscriber count reads
  \<open>inf\<close>.
\<close>

definition example_card :: node where
  "example_card = Tag (asc ''div'') [(asc ''class'', asc ''card peer-item-row'')]
     [Tag (asc ''a'') [(asc ''href'', asc ''/channel/@rian_ru/stat'')]
        [Tag (asc ''img'') [(asc ''class'', asc ''img-thumbnail''), (asc ''src'', asc ''//img.example/x.png'')] []],
      Tag (asc ''div'') [(asc ''class'', asc ''text-truncate font-16 text-dark mt-n1'')] [Text (asc '' RIA '')],
      Tag (asc ''div'') [(asc ''class'', asc ''col col-12 col-sm-7'')]
        [Tag (asc ''div'') [(asc ''class'', asc ''col col-4 pt-1'')] [Tag (asc ''h4'') [] [Text (asc '' 3 100 000 '')]],
         Tag (asc ''div'') [(asc ''class'', asc ''col col-4 pt-1'')] [Tag (asc ''h4'') [] [Text (asc ''38.2k'')]],
         Tag (asc ''div'') [(asc ''class'', asc ''col col-4 pt-1'')] [Tag (asc ''h4'') [] [Text (asc ''12'')]]],
      Tag (asc ''span'') [(asc ''class'', asc ''border rounded bg-light px-1'')] [Text (asc ''News'')]]"

definition example_channel :: channel where
  "example_channel = \<lparr>tgstat_url = asc ''https://tgstat.ru/channel/@rian_ru/stat'',
     username = Some (asc ''@rian_ru''), title = asc ''RIA'',
     avatar_url = Some (asc ''https://img.example/x.png''),
     subscribers = Some 3100000, subscribers_str = asc ''3100000'',
     avg_reach = Some 38200, avg_reach_str = asc ''38.2k'',
     ci_index = Some 12, ci_index_str = asc ''12'',
     category = asc ''News''\<rparr>"



text \<open>
  A post card whose \<open>id\<close> is \<open>post-\<close> and the two decimal digits of \<open>n\<close>, one with no
  number in its \<open>id\<close>, and one with no number whose view counter reads \<open>inf\<close>.
\<close>

definition two_digits :: "int \<Rightarrow> str" where
  "two_digits n = [48 + n div 10, 48 + n mod 10]"

definition post_card :: "int \<Rightarrow> node" where
  "post_card n = Tag (asc ''div'') [(asc ''class'', asc ''post-container''), (asc ''id'', asc ''post-'' @ two_digits n)]
     [Tag (asc ''div'') [(asc ''class'', asc ''post-header'')] [Tag (asc ''small'') [] [Text (asc ''12 Apr'')]]]"

definition idless_post :: node where
  "idless_post = Tag (asc ''div'') [(asc ''class'', asc ''post-container''), (asc ''id'', asc ''post-new'')]
     [Tag (asc ''div'') [(asc ''class'', asc ''post-header'')] [Tag (asc ''small'') [] [Text (asc ''12 Apr'')]]]"


text \<open>The page of the post cards \<open>hi\<close> down to \<open>lo\<close>.\<close>

definition posts_page :: "int \<Rightarrow> int \<Rightarrow> node" where
  "posts_page hi lo = doc [Tag (asc ''div'') [(asc ''class'', asc ''posts-list'')] (map post_card (rev [lo..hi]))]"

text \<open>An envelope with status \<open>ok\<close>, the given markup and \<open>hasMore\<close>, and no continuation hints.\<close>

definition ok_envelope :: "node \<Rightarrow> bool \<Rightarrow> envelope" where
  "ok_envelope soup continues = \<lparr>status = Some (asc ''ok''), html = Markup soup, hasMore = continues,
     nextPage = JAbsent, nextOffset = JAbsent\<rparr>"

definition ok_reply :: "node \<Rightarrow> bool \<Rightarrow> reply" where
  "ok_reply soup continues = Json (ok_envelope soup continues)"

text \<open>The same with \<open>hasMore\<close> set, sending the driver back to page index 0.\<close>

definition back_to_zero_reply :: "node \<Rightarrow> reply" where
  "back_to_zero_reply soup = Json ((ok_envelope soup True)\<lparr>nextPage := JInt 0\<rparr>)"


text \<open>The record that \<open>post_card n\<close> yields, and the record of \<open>idless_post\<close>.\<close>

definition post_record :: "int \<Rightarrow> post" where
  "post_record n = \<lparr>post_id = Some n, datetime_str = Some (asc ''12 Apr''), body = None,
     views_str = asc ''N/A'', views = None, shares_str = asc ''N/A'', shares = None,
     forwards_str = asc ''N/A'', forwards = None, tgstat_post_url = None, telegram_post_url = None\<rparr>"

definition idless_record :: post where
  "idless_record = \<lparr>post_id = None, datetime_str = Some (asc ''12 Apr''), body = None,
     views_str = asc ''N/A'', views = None, shares_str = asc ''N/A'', shares = None,
     forwards_str = asc ''N/A'', forwards = None, tgstat_post_url = None, telegram_post_url = None\<rparr>"

text \<open>A session that holds a token, and an upstream that answers the POSTs with the given replies.\<close>

definition with_token :: session where
  "with_token = \<lparr>csrf_token_form = Some (asc ''token'')\<rparr>"

definition answering :: "reply list \<Rightarrow> upstream" where
  "answering rs = \<lparr>refreshes = [], replies = rs\<rparr>"

text \<open>A feed of three pages of 20 posts: the channel's page and two load-more replies.\<close>

definition feed_initial :: get_reply where
  "feed_initial = GetOk (Markup (posts_page 60 41))"

definition feed_replies :: "reply list" where
  "feed_replies = [ok_reply (posts_page 40 21) True, ok_reply (posts_page 20 1) True]"

section \<open>Notions used in the statements\<close>

text \<open>
  A text of ASCII characters below 127, and tables that have the values of the Unicode
  database on the ASCII characters, as every version of the database has.
\<close>

definition ascii_text :: "str \<Rightarrow> bool" where
  "ascii_text s = list_all (\<lambda>c. 0 \<le> c \<and> c < 127) s"

definition agrees :: "tables \<Rightarrow> bool" where
  "agrees T = ((\<forall>c. 0 \<le> c \<and> c < 127 \<longrightarrow>
        is_space T c = is_space ascii_tables c
        \<and> digit_value T c = digit_value ascii_tables c
        \<and> is_word T c = is_word ascii_tables c)
     \<and> (\<forall>s. ascii_text s \<longrightarrow> str_lower T s = str_lower ascii_tables s))"

text \<open>A reply with which a search request fails: no envelope, or a status other than \<open>ok\<close>.\<close>

definition failed :: "reply \<Rightarrow> bool" where
  "failed r = (case request_result r of None \<Rightarrow> True | Some env \<Rightarrow> status env \<noteq> Some (asc ''ok''))"

text \<open>The posts that a load-more reply adds to the accumulated list.\<close>

definition batch :: "tables \<Rightarrow> reply \<Rightarrow> post list" where
  "batch T r = (case request_result r of
       None \<Rightarrow> []
     | Some env \<Rightarrow>
         if status env \<noteq> Some (asc ''ok'') then []
         else (case html env of Empty \<Rightarrow> [] | Markup soup \<Rightarrow> parse_posts_html T soup))"

text \<open>
  The cursor that a load-more reply calls for: the envelope's \<open>nextPage\<close> when it has
  one, otherwise the id of the last post of its batch.
\<close>

definition next_cursor :: "tables \<Rightarrow> reply \<Rightarrow> int option" where
  "next_cursor T r = (case request_result r of
       None \<Rightarrow> None
     | Some env \<Rightarrow>
         (case nextPage env of
            JInt c \<Rightarrow> Some c
          | _ \<Rightarrow> (case batch T r of [] \<Rightarrow> None | p # ps \<Rightarrow> post_id (last (p # ps)))))"

text \<open>The offset and the \<open>hasMore\<close> flag that a load-more reply leaves for the next iteration.\<close>

definition next_offset :: "tables \<Rightarrow> int \<Rightarrow> reply \<Rightarrow> int option" where
  "next_offset T off r = (case request_result r of
       None \<Rightarrow> Some off
     | Some env \<Rightarrow> get_or (nextOffset env) (off + int (length (batch T r))))"

definition more_after :: "reply \<Rightarrow> bool" where
  "more_after r = (case request_result r of None \<Rightarrow> False | Some env \<Rightarrow> hasMore env)"

section \<open>Basic facts\<close>

lemma sent_None [simp]: "sent posted q None = None"
  by (simp add: sent_def)

lemma sent_Some [simp]:
  "sent posted q (Some (a, s, qs)) = Some (a, s, if posted then q # qs else qs)"
  by (simp add: sent_def)

lemma sent_eq_Some:
  "sent posted q res = Some (a, s, qs) \<longleftrightarrow>
     (\<exists>qs'. res = Some (a, s, qs') \<and> qs = (if posted then q # qs' else qs'))"
  by (auto simp: sent_def split: option.splits)

lemma agrees_ascii_tables: "agrees ascii_tables"
  by (simp add: agrees_def)

text \<open>
  The three ways a call of a request method goes: the upstream has no outcome for it;
  it is abandoned after a failed refresh, with no POST; it posts, and its value is that
  of the first reply left.
\<close>

lemma guarded_post_cases:
  obtains (unanswered) "guarded_post s u = None"
  | (aborted) s1 u1 where "guarded_post s u = Some (None, s1, u1, [])" "replies u1 = replies u"
      "token_missing s"
  | (posted) r s1 u1 where "guarded_post s u = Some (request_result r, s1, u1, [csrf_token_form s1])"
      "replies u = r # replies u1" "csrf_token_form s1 \<noteq> None"
proof (cases "guarded_post s u")
  case None
  then show ?thesis by (rule unanswered)
next
  case (Some x)
  show ?thesis
  proof (cases "token_missing s")
    case False
    with Some obtain r rs where "replies u = r # rs"
      "guarded_post s u = Some (request_result r, s, u\<lparr>replies := rs\<rparr>, [csrf_token_form s])"
      by (auto simp: guarded_post_def post_with_token_def split: list.splits)
    moreover from False have "csrf_token_form s \<noteq> None"
      by (simp add: token_missing_def)
    ultimately show ?thesis by (intro posted [of r s "u\<lparr>replies := rs\<rparr>"]) simp_all
  next
    case True
    with Some obtain g gs where g: "refreshes u = g # gs"
      by (auto simp: guarded_post_def split: list.splits)
    show ?thesis
    proof (cases "refresh_csrf_token g s")
      case (Pair ok s1)
      show ?thesis
      proof (cases ok)
        case False
        with True g Pair have "guarded_post s u = Some (None, s1, u\<lparr>refreshes := gs\<rparr>, [])"
          by (simp add: guarded_post_def)
        then show ?thesis using True by (intro aborted [of s1 "u\<lparr>refreshes := gs\<rparr>"]) simp_all
      next
        case ok: True
        with True g Pair Some obtain r rs where "replies u = r # rs"
          "guarded_post s u = Some (request_result r, s1, u\<lparr>refreshes := gs, replies := rs\<rparr>,
             [csrf_token_form s1])"
          by (auto simp: guarded_post_def post_with_token_def split: list.splits)
        moreover from Pair ok have "csrf_token_form s1 \<noteq> None"
          by (auto simp: refresh_csrf_token_def split: get_reply.splits option.splits)
        ultimately show ?thesis
          by (intro posted [of r s1 "u\<lparr>refreshes := gs, replies := rs\<rparr>"]) simp_all
      qed
    qed
  qed
qed

lemma guarded_post_envelope:
  assumes "guarded_post s u = Some (Some env, s1, u1, toks)"
  shows "toks = [csrf_token_form s1] \<and> csrf_token_form s1 \<noteq> None
         \<and> (\<exists>r. replies u = r # replies u1 \<and> request_result r = Some env)"
  by (cases s u rule: guarded_post_cases) (use assms in auto)

lemma guarded_post_with_token:
  "\<not> token_missing s \<Longrightarrow> guarded_post s u = (case replies u of
       [] \<Rightarrow> None
     | r # rs \<Rightarrow> Some (request_result r, s, u\<lparr>replies := rs\<rparr>, [csrf_token_form s]))"
  by (simp add: guarded_post_def post_with_token_def)

section \<open>The number normalizer\<close>

text \<open>On ASCII text the tables matter only through their values on ASCII characters.\<close>

lemma ascii_text_append [simp]: "ascii_text (xs @ ys) \<longleftrightarrow> ascii_text xs \<and> ascii_text ys"
  by (simp add: ascii_text_def)

lemma ascii_text_rev [simp]: "ascii_text (rev xs) \<longleftrightarrow> ascii_text xs"
  by (simp add: ascii_text_def list_all_iff)

lemma ascii_text_dropWhile: "ascii_text xs \<Longrightarrow> ascii_text (dropWhile p xs)"
  unfolding ascii_text_def list_all_iff by (meson in_mono set_dropWhileD subsetI)

lemma ascii_text_lower: "ascii_text s \<Longrightarrow> ascii_text (str_lower ascii_tables s)"
  by (auto simp: ascii_text_def ascii_tables_def list_all_iff)

lemma ascii_text_replace:
  "ascii_text b \<Longrightarrow> ascii_text s \<Longrightarrow> ascii_text (replace_char a b s)"
  by (induction s) (auto simp: replace_char_def ascii_text_def)

lemma dropWhile_agrees:
  "agrees T \<Longrightarrow> ascii_text s \<Longrightarrow> dropWhile (is_space T) s = dropWhile (is_space ascii_tables) s"
  by (rule dropWhile_cong) (auto simp: agrees_def ascii_text_def list_all_iff)

lemma strip_agrees:
  assumes "agrees T" and "ascii_text s"
  shows "strip T s = strip ascii_tables s \<and> ascii_text (strip T s)"
proof -
  have d: "dropWhile (is_space T) s = dropWhile (is_space ascii_tables) s"
    using assms by (rule dropWhile_agrees)
  have a: "ascii_text (rev (dropWhile (is_space ascii_tables) s))"
    using assms(2) by (simp add: ascii_text_dropWhile)
  have e: "dropWhile (is_space T) (rev (dropWhile (is_space ascii_tables) s))
      = dropWhile (is_space ascii_tables) (rev (dropWhile (is_space ascii_tables) s))"
    using assms(1) a by (rule dropWhile_agrees)
  have eq: "strip T s = strip ascii_tables s"
    by (simp add: strip_def d e)
  have "ascii_text (strip ascii_tables s)"
    unfolding strip_def using a by (simp add: ascii_text_dropWhile)
  with eq show ?thesis by simp
qed

lemma to_ascii_ascii_text: "ascii_text s \<Longrightarrow> to_ascii T s = s"
  by (induction s) (auto simp: to_ascii_def ascii_text_def)

lemma parse_number_agrees:
  assumes "agrees T" and "ascii_text s"
  shows "parse_number T s = parse_number ascii_tables s"
proof -
  have low: "str_lower T s = str_lower ascii_tables s"
    using assms by (simp add: agrees_def)
  have al: "ascii_text (str_lower ascii_tables s)"
    using assms(2) by (rule ascii_text_lower)
  note st = strip_agrees [OF assms(1) al]
  define t where "t = replace_char (ch CHR '' '') [] (replace_char (ch CHR '','') (asc ''.'')
      (strip ascii_tables (str_lower ascii_tables s)))"
  have dot: "ascii_text (asc ''.'')"
    by (simp add: ascii_text_def asc_def ch_def)
  have nil: "ascii_text []"
    by (simp add: ascii_text_def)
  have "ascii_text (strip ascii_tables (str_lower ascii_tables s))"
    using strip_agrees [OF agrees_ascii_tables al] by (rule conjunct2)
  then have at: "ascii_text t"
    unfolding t_def by (intro ascii_text_replace dot nil)
  have am: "ascii_text (replace_char c [] t)" for c
    using nil at by (rule ascii_text_replace)
  have conv: "py_float T t = py_float ascii_tables t" "py_int T t = py_int ascii_tables t"
    "py_float T (replace_char c [] t) = py_float ascii_tables (replace_char c [] t)" for c
    by (simp_all add: py_float_def py_int_def to_ascii_ascii_text at am)
  have sc: "scaled T (replace_char c [] t) k = scaled ascii_tables (replace_char c [] t) k" for c k
    by (simp add: scaled_def conv)
  have iof: "int_or_float T t = int_or_float ascii_tables t"
    unfolding int_or_float_def conv ..
  show ?thesis
    unfolding parse_number_def low using st
    by (simp add: t_def [symmetric] sc iof Let_def)
qed

lemma ascii_text_examples:
  "ascii_text (asc ''38.2k'')" "ascii_text (asc ''2m'')" "ascii_text (asc ''9279489'')"
  "ascii_text []" "ascii_text (asc ''n/a'')" "ascii_text (asc ''garbage'')" "ascii_text (asc ''inf'')"
  by (simp_all add: ascii_text_def asc_def ch_def)

lemma parse_number_38_2k: "parse_number ascii_tables (asc ''38.2k'') = Inr (Some 38200)"
  by code_simp

lemma parse_number_2m: "parse_number ascii_tables (asc ''2m'') = Inr (Some 2000000)"
  by code_simp

lemma parse_number_plain: "parse_number ascii_tables (asc ''9279489'') = Inr (Some 9279489)"
  by code_simp

lemma parse_number_empty: "parse_number ascii_tables [] = Inr (Some 0)"
  by code_simp

lemma parse_number_na: "parse_number ascii_tables (asc ''n/a'') = Inr (Some 0)"
  by code_simp

lemma parse_number_garbage: "parse_number ascii_tables (asc ''garbage'') = Inr None"
  by code_simp

lemma parse_number_inf: "parse_number ascii_tables (asc ''inf'') = Inl OverflowError"
  by code_simp

text \<open>
  Claim C4. The number normalizer meets the table of examples of the specification:
  \<open>38.2k\<close> gives 38200, \<open>2m\<close> gives 2000000, \<open>9279489\<close> gives 9279489, the empty text and
  \<open>n/a\<close> give 0, and \<open>garbage\<close> gives none. Each is a value returned, not an exception,
  and each holds whatever the Unicode tables are beyond the ASCII characters.
\<close>

theorem parse_number_examples:
  assumes "agrees T"
  shows "parse_number T (asc ''38.2k'') = Inr (Some 38200) \<and>
   parse_number T (asc ''2m'') = Inr (Some 2000000) \<and>
   parse_number T (asc ''9279489'') = Inr (Some 9279489) \<and>
   parse_number T [] = Inr (Some 0) \<and>
   parse_number T (asc ''n/a'') = Inr (Some 0) \<and>
   parse_number T (asc ''garbage'') = Inr None"
  by (simp only: parse_number_agrees [OF assms] ascii_text_examples
        parse_number_38_2k parse_number_2m parse_number_plain parse_number_empty
        parse_number_na parse_number_garbage simp_thms)

theorem parse_number_examples_witness:
  "agrees ascii_tables \<and>
   parse_number ascii_tables (asc ''38.2k'') = Inr (Some 38200) \<and>
   parse_number ascii_tables (asc ''2m'') = Inr (Some 2000000) \<and>
   parse_number ascii_tables (asc ''9279489'') = Inr (Some 9279489) \<and>
   parse_number ascii_tables [] = Inr (Some 0) \<and>
   parse_number ascii_tables (asc ''n/a'') = Inr (Some 0) \<and>
   parse_number ascii_tables (asc ''garbage'') = Inr None"
  using parse_number_examples [OF agrees_ascii_tables] agrees_ascii_tables by simp

text \<open>
  Claim C5. The claim says that the normalizer returns an integer or none for every
  text and never raises. On the text \<open>inf\<close> the source raises: \<open>int('inf')\<close> is a
  \<open>ValueError\<close>, the fallback \<open>float('inf')\<close> succeeds, and \<open>int\<close> of an infinite float
  is an \<open>OverflowError\<close>, which the handler for \<open>ValueError\<close> does not catch.
\<close>

theorem parse_number_inf_raises:
  assumes "agrees T"
  shows "parse_number T (asc ''inf'') = Inl OverflowError"
  by (simp only: parse_number_agrees [OF assms] ascii_text_examples parse_number_inf)

theorem parse_number_inf_raises_witness:
  "agrees ascii_tables \<and> parse_number ascii_tables (asc ''inf'') = Inl OverflowError"
  using parse_number_inf_raises [OF agrees_ascii_tables] agrees_ascii_tables by simp

section \<open>Extraction\<close>























section \<open>The session token\<close>

lemma refresh_fails_iff:
  "\<not> fst (refresh_csrf_token g s) \<longleftrightarrow>
     g = GetFailed \<or> (\<exists>t. g = GetOk t \<and> meta_token (soup_of t) = None \<and> input_token (soup_of t) = None)"
  by (auto simp: refresh_csrf_token_def split: get_reply.splits option.splits)

lemma refresh_failed_result:
  "\<not> fst (refresh_csrf_token g s) \<Longrightarrow> refresh_csrf_token g s = (False, s\<lparr>csrf_token_form := None\<rparr>)"
  by (auto simp: refresh_csrf_token_def split: get_reply.splits option.splits)

lemma refresh_ok_token:
  "refresh_csrf_token g s = (True, s') \<Longrightarrow> \<exists>tok. csrf_token_form s' = Some tok"
  by (auto simp: refresh_csrf_token_def split: get_reply.splits option.splits)

text \<open>
  Claim C8. A refresh fails exactly when the page fetch fails at the transport layer or
  neither the meta tag nor the hidden input yields a token. It then returns \<open>False\<close> and
  leaves the stored token \<open>None\<close>, whatever token was stored before; a request method
  called on that session refreshes first, and either issues no POST or posts with the
  token of that new, successful refresh; and \<open>__init__\<close>, whose refresh is the first,
  raises \<open>ConnectionError\<close>.
\<close>

theorem refresh_failure_clears_token:
  assumes "g = GetFailed
      \<or> (\<exists>t. g = GetOk t \<and> meta_token (soup_of t) = None \<and> input_token (soup_of t) = None)"
  shows "refresh_csrf_token g s = (False, s\<lparr>csrf_token_form := None\<rparr>)
    \<and> csrf_token_form (snd (refresh_csrf_token g s)) = None
    \<and> init g = Inl ConnectionError
    \<and> (\<forall>request u res s' u' toks.
         (request = make_search_request \<or> request = make_more_posts_request)
         \<and> request (snd (refresh_csrf_token g s)) u = Some (res, s', u', toks) \<longrightarrow>
         (\<exists>g' gs. refreshes u = g' # gs \<and>
            ((toks = [] \<and> res = None \<and> \<not> fst (refresh_csrf_token g' (snd (refresh_csrf_token g s))))
             \<or> (refresh_csrf_token g' (snd (refresh_csrf_token g s)) = (True, s')
                 \<and> toks = [csrf_token_form s'] \<and> csrf_token_form s' \<noteq> None))))"
proof -
  from assms have fails: "\<not> fst (refresh_csrf_token g s')" for s'
    by (simp add: refresh_fails_iff)
  have res: "refresh_csrf_token g s = (False, s\<lparr>csrf_token_form := None\<rparr>)"
    using fails by (rule refresh_failed_result)
  have cleared: "csrf_token_form (snd (refresh_csrf_token g s)) = None"
    by (simp add: res)
  have fatal: "init g = Inl ConnectionError"
    using refresh_failed_result [OF fails, of "\<lparr>csrf_token_form = None\<rparr>"]
    by (simp add: init_def)
  have later: "\<exists>g' gs. refreshes u = g' # gs \<and>
         ((toks = [] \<and> res = None \<and> \<not> fst (refresh_csrf_token g' (snd (refresh_csrf_token g s))))
          \<or> (refresh_csrf_token g' (snd (refresh_csrf_token g s)) = (True, s')
             \<and> toks = [csrf_token_form s'] \<and> csrf_token_form s' \<noteq> None))"
    if which: "request = make_search_request \<or> request = make_more_posts_request"
      and call: "request (snd (refresh_csrf_token g s)) u = Some (res, s', u', toks)"
    for request u res s' u' toks
  proof -
    let ?s = "snd (refresh_csrf_token g s)"
    from which call have post: "guarded_post ?s u = Some (res, s', u', toks)"
      by (auto simp: make_search_request_def make_more_posts_request_def)
    have missing: "token_missing ?s"
      using cleared by (simp add: token_missing_def)
    from post missing obtain g' gs where g': "refreshes u = g' # gs"
      by (auto simp: guarded_post_def split: list.splits)
    show ?thesis
    proof (cases "refresh_csrf_token g' ?s")
      case (Pair ok s1)
      show ?thesis
      proof (cases ok)
        case False
        with Pair post missing g' show ?thesis
          by (simp add: guarded_post_def)
      next
        case True
        with Pair post missing g' have "s' = s1" "toks = [csrf_token_form s1]"
          by (auto simp add: guarded_post_def post_with_token_def split: list.splits)
        moreover from Pair True have "\<exists>tok. csrf_token_form s1 = Some tok"
          by (simp add: refresh_ok_token)
        ultimately show ?thesis using Pair True g' by auto
      qed
    qed
  qed
  from res cleared fatal later show ?thesis by blast
qed

theorem refresh_failure_clears_token_witness:
  "refresh_csrf_token GetFailed \<lparr>csrf_token_form = Some (asc ''stale'')\<rparr> = (False, \<lparr>csrf_token_form = None\<rparr>)
   \<and> init GetFailed = Inl ConnectionError
   \<and> meta_token (soup_of (Markup (doc [Tag (asc ''meta'') [(asc ''name'', asc ''csrf-token'')] []]))) = None
   \<and> input_token (soup_of (Markup (doc [Tag (asc ''meta'') [(asc ''name'', asc ''csrf-token'')] []]))) = None
   \<and> refresh_csrf_token (GetOk (Markup (doc [Tag (asc ''meta'') [(asc ''name'', asc ''csrf-token'')] []])))
        \<lparr>csrf_token_form = Some (asc ''stale'')\<rparr> = (False, \<lparr>csrf_token_form = None\<rparr>)
   \<and> init (GetOk (Markup (doc [Tag (asc ''meta'') [(asc ''name'', asc ''csrf-token'')] []]))) = Inl ConnectionError
   \<and> make_search_request \<lparr>csrf_token_form = None\<rparr> \<lparr>refreshes = [GetFailed], replies = [Undecodable]\<rparr>
       = Some (None, \<lparr>csrf_token_form = None\<rparr>, \<lparr>refreshes = [], replies = [Undecodable]\<rparr>, [])"
proof -
  let ?page = "Markup (doc [Tag (asc ''meta'') [(asc ''name'', asc ''csrf-token'')] []])"
  have m: "meta_token (soup_of ?page) = None" by code_simp
  have i: "input_token (soup_of ?page) = None" by code_simp
  have r: "make_search_request \<lparr>csrf_token_form = None\<rparr> \<lparr>refreshes = [GetFailed], replies = [Undecodable]\<rparr>
       = Some (None, \<lparr>csrf_token_form = None\<rparr>, \<lparr>refreshes = [], replies = [Undecodable]\<rparr>, [])"
    by (simp add: make_search_request_def guarded_post_def token_missing_def refresh_csrf_token_def)
  have h1: "GetFailed = GetFailed
      \<or> (\<exists>t. GetFailed = GetOk t \<and> meta_token (soup_of t) = None \<and> input_token (soup_of t) = None)"
    by simp
  have h2: "GetOk ?page = GetFailed
      \<or> (\<exists>t. GetOk ?page = GetOk t \<and> meta_token (soup_of t) = None \<and> input_token (soup_of t) = None)"
    using m i by simp
  from refresh_failure_clears_token [OF h1, of "\<lparr>csrf_token_form = Some (asc ''stale'')\<rparr>"]
    refresh_failure_clears_token [OF h2, of "\<lparr>csrf_token_form = Some (asc ''stale'')\<rparr>"] m i r
  show ?thesis by simp
qed

section \<open>The search driver\<close>

text \<open>What one iteration of the loop does, by the outcome of its request.\<close>

lemma search_loop_done:
  assumes "\<not> (page < mp \<and> hm)"
  shows "search_loop T mp s u acc page off hm = Some (Returned (Some acc), s, [])"
  by (subst search_loop.simps, subst if_not_P [OF assms], rule refl)


lemma search_loop_failed:
  assumes "page < mp \<and> hm" and "make_search_request s u = Some (res, s1, u1, toks)"
    and "res = None \<or> (\<exists>env. res = Some env \<and> status env \<noteq> Some (asc ''ok''))"
  shows "search_loop T mp s u acc page off hm =
     Some (if page = 0 then Returned None else Returned (Some acc), s1,
           if toks \<noteq> [] then [(page, off)] else [])"
  by (subst search_loop.simps, subst if_P [OF assms(1)]) (use assms(2,3) in auto)

lemma search_loop_page:
  assumes "page < mp \<and> hm" and "make_search_request s u = Some (Some env, s1, u1, toks)"
    and "status env = Some (asc ''ok'')" and "html env = Markup soup"
  shows "search_loop T mp s u acc page off hm =
     sent True (page, off)
       (if parse_search_html T soup = [] \<and> page = 0 then Some (Returned (Some []), s1, [])
        else (case off of
           None \<Rightarrow> Some (Raised TypeError, s1, [])
         | Some ofs \<Rightarrow>
             (case get_or (nextPage env) (page + 1) of
                None \<Rightarrow> Some (Raised TypeError, s1, [])
              | Some np \<Rightarrow> search_loop T mp s1 u1 (acc @ parse_search_html T soup) np
                             (get_or (nextOffset env) (ofs + 30)) (hasMore env))))"
proof -
  from assms(2) have "toks \<noteq> []"
    using guarded_post_envelope [of s u env s1 u1 toks] by (simp add: make_search_request_def)
  with assms(2,3,4) show ?thesis
    by (subst search_loop.simps, subst if_P [OF assms(1)]) (simp add: Let_def)
qed

lemma search_first_failed:
  assumes "0 < mp" and "\<not> token_missing s" and "replies u = r # rs" and "failed r"
  shows "search_channels T mp s u = Some (Returned None, s, [(0, Some 0)])"
proof -
  from assms(2,3) have call: "make_search_request s u =
      Some (request_result r, s, u\<lparr>replies := rs\<rparr>, [csrf_token_form s])"
    by (simp add: make_search_request_def guarded_post_with_token)
  from assms(4) have "request_result r = None
      \<or> (\<exists>env. request_result r = Some env \<and> status env \<noteq> Some (asc ''ok''))"
    by (auto simp: failed_def split: option.splits)
  with assms(1) call show ?thesis
    unfolding search_channels_def by (subst search_loop_failed) auto
qed

lemma search_first_empty:
  assumes "0 < mp" and "make_search_request s u = Some (Some env, s1, u1, toks)"
    and "status env = Some (asc ''ok'')" and "html env = Markup soup"
    and "parse_search_html T soup = []"
  shows "search_channels T mp s u = Some (Returned (Some []), s1, [(0, Some 0)])"
  unfolding search_channels_def
  using assms by (subst search_loop_page [where env = env and soup = soup]) auto

lemma example_page_parses: "parse_search_html ascii_tables (doc [example_card]) = [example_channel]"
  by code_simp


lemma empty_doc_no_channels: "parse_search_html ascii_tables (doc []) = []"
  by code_simp

lemma with_token_held: "\<not> token_missing with_token"
  by (simp add: token_missing_def with_token_def asc_def)

lemma answering_request:
  "make_search_request with_token (answering (r # rs))
     = Some (request_result r, with_token, answering rs, [csrf_token_form with_token])"
  by (simp add: make_search_request_def guarded_post_with_token with_token_held answering_def)

lemma ok_reply_result [simp]: "request_result (ok_reply soup continues) = Some (ok_envelope soup continues)"
  by (simp add: ok_reply_def request_result_def)

lemma ok_envelope_fields [simp]:
  "status (ok_envelope soup continues) = Some (asc ''ok'')"
  "html (ok_envelope soup continues) = Markup soup"
  "hasMore (ok_envelope soup continues) = continues"
  "nextPage (ok_envelope soup continues) = JAbsent"
  "nextOffset (ok_envelope soup continues) = JAbsent"
  by (simp_all add: ok_envelope_def)

text \<open>
  Claim C2. The claim says that the search returns \<open>None\<close> exactly when the very first
  page request fails. The source tests the page index, not the number of the request,
  and takes the index from the envelope: when the first page succeeds with records,
  \<open>hasMore\<close> set and \<open>nextPage\<close> 0, and the second request fails, the search returns
  \<open>None\<close> and the records of the first page are lost.
\<close>

theorem search_channels_none_after_first_page:
  assumes "0 < mp" and "\<not> token_missing s" and "replies u = Json env # r2 # rs"
    and "status env = Some (asc ''ok'')" and "html env = Markup soup"
    and "parse_search_html T soup \<noteq> []" and "hasMore env" and "nextPage env = JInt 0"
    and "failed r2"
  shows "search_channels T mp s u =
           Some (Returned None, s, [(0, Some 0), (0, get_or (nextOffset env) 30)])"
proof -
  let ?u1 = "u\<lparr>replies := r2 # rs\<rparr>"
  from assms(2,3) have first: "make_search_request s u =
      Some (Some env, s, ?u1, [csrf_token_form s])"
    by (simp add: make_search_request_def guarded_post_with_token request_result_def)
  from assms(2) have second: "make_search_request s ?u1 =
      Some (request_result r2, s, u\<lparr>replies := rs\<rparr>, [csrf_token_form s])"
    by (simp add: make_search_request_def guarded_post_with_token)
  from assms(9) have bad: "request_result r2 = None
      \<or> (\<exists>env. request_result r2 = Some env \<and> status env \<noteq> Some (asc ''ok''))"
    by (auto simp: failed_def split: option.splits)
  have run: "(0::int) < mp \<and> True" "(0::int) < mp \<and> hasMore env"
    using assms(1,7) by simp_all
  have later: "search_loop T mp s ?u1 (parse_search_html T soup) 0 (get_or (nextOffset env) 30) (hasMore env)
      = Some (Returned None, s, [(0, get_or (nextOffset env) 30)])"
    using search_loop_failed [OF run(2) second bad, of T "parse_search_html T soup"
        "get_or (nextOffset env) 30"]
    by simp
  show ?thesis
    unfolding search_channels_def
    using search_loop_page [OF run(1) first assms(4,5), of T "[]" "Some 0"] assms(6,8) later
    by (simp add: get_or_def)
qed

theorem search_channels_none_after_first_page_witness:
  "parse_search_html ascii_tables (doc [example_card]) = [example_channel]
   \<and> failed TransportFailure
   \<and> search_channels ascii_tables 2 with_token
        (answering [back_to_zero_reply (doc [example_card]), TransportFailure])
       = Some (Returned None, with_token, [(0, Some 0), (0, Some 30)])"
proof -
  let ?env = "(ok_envelope (doc [example_card]) True)\<lparr>nextPage := JInt 0\<rparr>"
  have pos: "(0::int) < 2" by simp
  have rs: "replies (answering [back_to_zero_reply (doc [example_card]), TransportFailure])
      = Json ?env # TransportFailure # []"
    by (simp add: answering_def back_to_zero_reply_def)
  have ne: "parse_search_html ascii_tables (doc [example_card]) \<noteq> []"
    by (simp add: example_page_parses)
  have f: "failed TransportFailure"
    by (simp add: failed_def request_result_def)
  from search_channels_none_after_first_page [OF pos with_token_held rs _ _ ne _ _ f]
  have "search_channels ascii_tables 2 with_token
        (answering [back_to_zero_reply (doc [example_card]), TransportFailure])
       = Some (Returned None, with_token, [(0, Some 0), (0, get_or (nextOffset ?env) 30)])"
    by simp
  then show ?thesis
    using f by (simp add: example_page_parses get_or_def)
qed








text \<open>
  Claim C10. With \<open>max_pages = 0\<close> the search returns the empty list and issues no
  request, whatever the session and the upstream are. A search that fetches a first
  page with no channel record returns the same value, the empty list, after one
  request.
\<close>

theorem search_channels_zero_pages:
  assumes "0 < mp" and "make_search_request s u = Some (Some env, s1, u1, toks)"
    and "status env = Some (asc ''ok'')" and "html env = Markup soup"
    and "parse_search_html T soup = []"
  shows "search_channels T 0 s0 u0 = Some (Returned (Some []), s0, [])
         \<and> search_channels T mp s u = Some (Returned (Some []), s1, [(0, Some 0)])
         \<and> map_option fst (search_channels T 0 s0 u0) = map_option fst (search_channels T mp s u)"
proof -
  have zero: "search_channels T 0 s0 u0 = Some (Returned (Some []), s0, [])"
    unfolding search_channels_def by (rule search_loop_done) simp
  have one: "search_channels T mp s u = Some (Returned (Some []), s1, [(0, Some 0)])"
    using assms by (rule search_first_empty)
  from zero one show ?thesis by simp
qed

theorem search_channels_zero_pages_witness:
  "search_channels ascii_tables 0 with_token (answering [TransportFailure])
       = Some (Returned (Some []), with_token, [])
   \<and> parse_search_html ascii_tables (doc []) = []
   \<and> search_channels ascii_tables 1 with_token (answering [ok_reply (doc []) True])
       = Some (Returned (Some []), with_token, [(0, Some 0)])"
proof -
  have pos: "(0::int) < 1" by simp
  have call: "make_search_request with_token (answering [ok_reply (doc []) True])
      = Some (Some (ok_envelope (doc []) True), with_token, answering [],
              [csrf_token_form with_token])"
    by (simp add: answering_request)
  have ok: "status (ok_envelope (doc []) True) = Some (asc ''ok'')"
    "html (ok_envelope (doc []) True) = Markup (doc [])"
    by simp_all
  from search_channels_zero_pages [OF pos call ok empty_doc_no_channels,
      of with_token "answering [TransportFailure]"] empty_doc_no_channels
  show ?thesis by simp
qed

section \<open>The post-feed driver\<close>

text \<open>What one iteration of the loop does, by the outcome of its request.\<close>

lemma posts_loop_done:
  assumes "\<not> (int (length acc) < mp \<and> hm \<and> cursor_ok c)"
  shows "posts_loop T mp s u acc c off hm = Some (Returned acc, s, [])"
  by (subst posts_loop.simps, subst if_not_P [OF assms], rule refl)

lemma posts_loop_unanswered:
  assumes "int (length acc) < mp \<and> hm \<and> cursor_ok c" and "make_more_posts_request s u = None"
  shows "posts_loop T mp s u acc c off hm = None"
  by (subst posts_loop.simps, subst if_P [OF assms(1)]) (simp add: assms(2))

lemma posts_loop_aborted:
  assumes "int (length acc) < mp \<and> hm \<and> cursor_ok c"
    and "make_more_posts_request s u = Some (None, s1, u1, [])"
  shows "posts_loop T mp s u acc c off hm = Some (Returned acc, s1, [])"
  by (subst posts_loop.simps, subst if_P [OF assms(1)]) (simp add: assms(2))

lemma posts_loop_posted:
  assumes "int (length acc) < mp \<and> hm \<and> cursor_ok c"
    and "make_more_posts_request s u = Some (request_result r, s1, u1, [tok])"
  shows "posts_loop T mp s u acc c off hm =
      sent True (c, off)
        (if batch T r = [] then Some (Returned acc, s1, [])
         else case off of
           None \<Rightarrow> Some (Raised TypeError, s1, [])
         | Some ofs \<Rightarrow>
             if \<not> cursor_ok (next_cursor T r) then Some (Returned (acc @ batch T r), s1, [])
             else posts_loop T mp s1 u1 (acc @ batch T r) (next_cursor T r) (next_offset T ofs r)
                    (more_after r))"
proof (cases "batch T r = []")
  case True
  then show ?thesis
    by (subst posts_loop.simps, subst if_P [OF assms(1)])
      (auto simp: assms(2) batch_def Let_def split: option.splits payload.splits if_splits)
next
  case False
  then obtain env soup where env: "request_result r = Some env" "status env = Some (asc ''ok'')"
      "html env = Markup soup" and b: "batch T r = parse_posts_html T soup"
    by (auto simp: batch_def split: option.splits payload.splits if_splits)
  have ne: "parse_posts_html T soup \<noteq> []"
    using False b by simp
  then obtain p ps where cons: "parse_posts_html T soup = p # ps"
    by (cases "parse_posts_html T soup") auto
  have nc: "next_cursor T r = (case nextPage env of JInt n \<Rightarrow> Some n
      | _ \<Rightarrow> post_id (last (parse_posts_html T soup)))"
    using env by (simp add: next_cursor_def b cons split: jint.splits)
  have no: "next_offset T ofs r = get_or (nextOffset env) (ofs + int (length (parse_posts_html T soup)))"
    for ofs
    using env b by (simp add: next_offset_def)
  have ma: "more_after r = hasMore env"
    using env by (simp add: more_after_def)
  show ?thesis
    unfolding nc no ma b
    by (subst posts_loop.simps, subst if_P [OF assms(1)])
      (simp add: assms(2) env ne Let_def split: option.splits)
qed

text \<open>
  The accumulated list is what the loop started with and the batches of the replies to
  its requests, and every request takes the next reply.
\<close>

lemma posts_loop_accumulates:
  "posts_loop T mp s u acc c off hm = Some (Returned ps, sf, qs) \<Longrightarrow>
     length qs \<le> length (replies u)
     \<and> ps = acc @ concat (map (batch T) (take (length qs) (replies u)))"
proof (induction "length (replies u)" arbitrary: s u acc c off hm ps qs rule: less_induct)
  case less
  show ?case
  proof (cases "int (length acc) < mp \<and> hm \<and> cursor_ok c")
    case False
    from less.prems have "ps = acc \<and> qs = []"
      unfolding posts_loop_done [OF False] by simp
    then show ?thesis by simp
  next
    case True
    note run = this
    show ?thesis
    proof (cases s u rule: guarded_post_cases)
      case unanswered
      with less.prems posts_loop_unanswered [OF run, of s u T off] show ?thesis
        by (simp add: make_more_posts_request_def)
    next
      case (aborted s1 u1)
      from less.prems have "ps = acc \<and> qs = []"
        using posts_loop_aborted [OF run, of s u s1 u1 T off] aborted(1)
        by (simp add: make_more_posts_request_def)
      then show ?thesis by simp
    next
      case (posted r s1 u1)
      from posted(1) have call: "make_more_posts_request s u
          = Some (request_result r, s1, u1, [csrf_token_form s1])"
        by (simp add: make_more_posts_request_def)
      note step = posts_loop_posted [OF run call, of T off]
      show ?thesis
      proof (cases "batch T r = []")
        case True
        from less.prems have "ps = acc \<and> qs = [(c, off)]"
          unfolding step using True by simp
        with True posted(2) show ?thesis by simp
      next
        case False
        note new = this
        show ?thesis
        proof (cases off)
          case None
          from less.prems show ?thesis
            unfolding step using new None by simp
        next
          case (Some ofs)
          show ?thesis
          proof (cases "cursor_ok (next_cursor T r)")
            case False
            from less.prems have "ps = acc @ batch T r \<and> qs = [(c, off)]"
              unfolding step using new Some False by simp
            with posted(2) show ?thesis by simp
          next
            case True
            from less.prems obtain qs' where
              rec: "posts_loop T mp s1 u1 (acc @ batch T r) (next_cursor T r)
                      (next_offset T ofs r) (more_after r) = Some (Returned ps, sf, qs')"
              and qs: "qs = (c, off) # qs'"
              unfolding step using new Some True by (auto simp: sent_eq_Some)
            have shorter: "length (replies u1) < length (replies u)"
              using posted(2) by simp
            from less.hyps [OF shorter rec] qs posted(2) show ?thesis by simp
          qed
        qed
      qed
    qed
  qed
qed

text \<open>The first request of the loop carries the cursor the loop started with.\<close>

lemma posts_loop_first_cursor:
  assumes "posts_loop T mp s u acc c off hm = Some (res, sf, q # qs)"
  shows "fst q = c"
proof (cases "int (length acc) < mp \<and> hm \<and> cursor_ok c")
  case False
  from assms show ?thesis unfolding posts_loop_done [OF False] by simp
next
  case True
  note run = this
  show ?thesis
  proof (cases s u rule: guarded_post_cases)
    case unanswered
    with assms posts_loop_unanswered [OF run, of s u T off] show ?thesis
      by (simp add: make_more_posts_request_def)
  next
    case (aborted s1 u1)
    from assms show ?thesis
      using posts_loop_aborted [OF run, of s u s1 u1 T off] aborted(1)
      by (simp add: make_more_posts_request_def)
  next
    case (posted r s1 u1)
    from posted(1) have call: "make_more_posts_request s u
        = Some (request_result r, s1, u1, [csrf_token_form s1])"
      by (simp add: make_more_posts_request_def)
    from assms show ?thesis
      unfolding posts_loop_posted [OF run call, of T off]
      by (auto simp: sent_eq_Some)
  qed
qed

text \<open>Every request after the first carries the cursor that the reply before it called for.\<close>

lemma posts_loop_cursors:
  "posts_loop T mp s u acc c off hm = Some (res, sf, qs) \<Longrightarrow> Suc i < length qs \<Longrightarrow>
     Suc i < length (replies u) \<and> batch T (replies u ! i) \<noteq> []
     \<and> fst (qs ! Suc i) = next_cursor T (replies u ! i)"
proof (induction "length (replies u)" arbitrary: s u acc c off hm qs i rule: less_induct)
  case less
  show ?case
  proof (cases "int (length acc) < mp \<and> hm \<and> cursor_ok c")
    case False
    from less.prems(1) have "qs = []"
      unfolding posts_loop_done [OF False] by simp
    with less.prems(2) show ?thesis by simp
  next
    case True
    note run = this
    show ?thesis
    proof (cases s u rule: guarded_post_cases)
      case unanswered
      with less.prems(1) posts_loop_unanswered [OF run, of s u T off] show ?thesis
        by (simp add: make_more_posts_request_def)
    next
      case (aborted s1 u1)
      from less.prems(1) have "qs = []"
        using posts_loop_aborted [OF run, of s u s1 u1 T off] aborted(1)
        by (simp add: make_more_posts_request_def)
      with less.prems(2) show ?thesis by simp
    next
      case (posted r s1 u1)
      from posted(1) have call: "make_more_posts_request s u
          = Some (request_result r, s1, u1, [csrf_token_form s1])"
        by (simp add: make_more_posts_request_def)
      note step = posts_loop_posted [OF run call, of T off]
      show ?thesis
      proof (cases "batch T r \<noteq> [] \<and> off \<noteq> None \<and> cursor_ok (next_cursor T r)")
        case False
        from less.prems(1) have "qs = [(c, off)]"
          unfolding step using False by (auto split: option.splits if_splits)
        with less.prems(2) show ?thesis by simp
      next
        case True
        then obtain ofs where ofs: "off = Some ofs" by auto
        from less.prems(1) obtain qs' where
          rec: "posts_loop T mp s1 u1 (acc @ batch T r) (next_cursor T r)
                  (next_offset T ofs r) (more_after r) = Some (res, sf, qs')"
          and qs: "qs = (c, off) # qs'"
          unfolding step using True ofs by (auto simp: sent_eq_Some)
        have shorter: "length (replies u1) < length (replies u)"
          using posted(2) by simp
        show ?thesis
        proof (cases i)
          case 0
          with less.prems(2) qs obtain q qs'' where q: "qs' = q # qs''"
            by (cases qs') auto
          from rec have "fst q = next_cursor T r"
            unfolding q by (rule posts_loop_first_cursor)
          moreover from rec q have "replies u1 \<noteq> []"
            by (subst (asm) posts_loop.simps)
              (auto simp: make_more_posts_request_def guarded_post_def post_with_token_def
                sent_eq_Some
                split: if_splits option.splits list.splits prod.splits bool.splits)
          ultimately show ?thesis
            using 0 qs q True posted(2) by simp
        next
          case (Suc j)
          with less.prems(2) qs have "Suc j < length qs'" by simp
          from less.hyps [OF shorter rec this] Suc qs posted(2) show ?thesis by simp
        qed
      qed
    qed
  qed
qed

lemma feed_run:
  "get_channel_posts ascii_tables (asc ''@rian_ru'') 45 feed_initial with_token (answering feed_replies) =
     Some (Returned (Some (map post_record (rev [16..60]))), with_token,
           [(Some 41, Some 20), (Some 21, Some 40)])"
  by code_simp

lemma feed_second_batch: "batch ascii_tables (feed_replies ! 0) = map post_record (rev [21..40])"
  by code_simp

lemma feed_accumulated:
  "parse_posts_html ascii_tables (posts_page 60 41) @ concat (map (batch ascii_tables) (take 2 feed_replies))
     = map post_record (rev [1..60])"
  by code_simp

lemma idless_page_parses:
  "parse_posts_html ascii_tables (doc [post_card 7, idless_post]) = [post_record 7, idless_record]"
  by code_simp

text \<open>
  Claim C6. In the post feed, every load-more request after the first follows a reply
  that succeeded (status \<open>ok\<close>, a batch that is not empty), and its cursor is that
  envelope's \<open>nextPage\<close> when it has one, otherwise the id of the last post of that batch.
\<close>

theorem posts_cursor_advance:
  assumes "get_channel_posts T channel mp initial s u = Some (res, sf, qs)"
    and "Suc i < length qs"
  shows "\<exists>env. i < length (replies u)
           \<and> request_result (replies u ! i) = Some env \<and> status env = Some (asc ''ok'')
           \<and> batch T (replies u ! i) \<noteq> []
           \<and> fst (qs ! Suc i) =
               (case nextPage env of
                  JInt n \<Rightarrow> Some n
                | _ \<Rightarrow> post_id (last (batch T (replies u ! i))))"
proof -
  from assms obtain soup res' where
    loop: "posts_loop T mp s u (parse_posts_html T soup) (post_id (last (parse_posts_html T soup)))
             (Some (int (length (parse_posts_html T soup)))) True = Some (res', sf, qs)"
    by (auto simp: get_channel_posts_def Let_def
        split: if_splits get_reply.splits payload.splits option.splits outcome.splits)
  let ?r = "replies u ! i"
  from posts_loop_cursors [OF loop assms(2)]
  have new: "batch T ?r \<noteq> []" and cur: "fst (qs ! Suc i) = next_cursor T ?r"
    and inside: "i < length (replies u)"
    by simp_all
  from new obtain env where env: "request_result ?r = Some env" "status env = Some (asc ''ok'')"
    by (auto simp: batch_def split: option.splits if_splits)
  from new obtain p ps' where "batch T ?r = p # ps'"
    by (cases "batch T ?r") auto
  with env cur have "fst (qs ! Suc i) =
      (case nextPage env of JInt n \<Rightarrow> Some n | _ \<Rightarrow> post_id (last (batch T ?r)))"
    by (simp add: next_cursor_def split: jint.splits)
  with env new inside show ?thesis by blast
qed

theorem posts_cursor_advance_witness:
  "get_channel_posts ascii_tables (asc ''@rian_ru'') 45 feed_initial with_token (answering feed_replies) =
     Some (Returned (Some (map post_record (rev [16..60]))), with_token,
           [(Some 41, Some 20), (Some 21, Some 40)])
   \<and> batch ascii_tables (feed_replies ! 0) = map post_record (rev [21..40])
   \<and> post_id (last (batch ascii_tables (feed_replies ! 0))) = Some 21
   \<and> fst ([(Some 41, Some 20), (Some 21, Some 40)] ! Suc 0)
       = post_id (last (batch ascii_tables (feed_replies ! 0)))"
proof -
  have two: "Suc 0 < length [(Some 41 :: int option, Some 20 :: int option), (Some 21, Some 40)]"
    by simp
  from posts_cursor_advance [OF feed_run two] obtain env where
    env: "request_result (replies (answering feed_replies) ! 0) = Some env"
    and cur: "fst ([(Some 41 :: int option, Some 20 :: int option), (Some 21, Some 40)] ! Suc 0) =
      (case nextPage env of JInt n \<Rightarrow> Some n
       | _ \<Rightarrow> post_id (last (batch ascii_tables (replies (answering feed_replies) ! 0))))"
    by blast
  have rs: "replies (answering feed_replies) = feed_replies"
    by (simp add: answering_def)
  from env have "request_result (feed_replies ! 0) = Some env"
    unfolding rs .
  then have "nextPage env = JAbsent"
    by (auto simp: feed_replies_def ok_reply_def ok_envelope_def request_result_def)
  with cur have "fst ([(Some 41 :: int option, Some 20 :: int option), (Some 21, Some 40)] ! Suc 0)
      = post_id (last (batch ascii_tables (feed_replies ! 0)))"
    by (simp add: rs)
  moreover from this have "post_id (last (batch ascii_tables (feed_replies ! 0))) = Some 21" by simp
  ultimately show ?thesis using feed_run feed_second_batch by simp
qed

text \<open>
  Claim C7. For a requested maximum that is not negative, the list returned is the
  first \<open>max_posts\<close> of the accumulated records (the initial batch, then the batch of
  each load-more reply, in the order fetched): never more than \<open>max_posts\<close> records, and
  exactly \<open>max_posts\<close> when more were accumulated.
\<close>

theorem posts_truncated:
  assumes "get_channel_posts T channel mp initial s u = Some (Returned (Some ps), sf, qs)"
    and "0 \<le> mp"
  shows "int (length ps) \<le> mp
         \<and> (\<exists>soup. initial = GetOk (Markup soup)
              \<and> ps = take (nat mp)
                       (parse_posts_html T soup @ concat (map (batch T) (take (length qs) (replies u))))
              \<and> (mp < int (length (parse_posts_html T soup
                                     @ concat (map (batch T) (take (length qs) (replies u)))))
                   \<longrightarrow> int (length ps) = mp))"
proof -
  from assms(1) obtain soup where init: "initial = GetOk (Markup soup)"
    by (auto simp: get_channel_posts_def split: if_splits get_reply.splits payload.splits)
  let ?acc = "parse_posts_html T soup @ concat (map (batch T) (take (length qs) (replies u)))"
  have "ps = py_take mp ?acc"
  proof (cases "parse_posts_html T soup = []")
    case True
    with assms(1) init show ?thesis
      by (auto simp: get_channel_posts_def py_take_def split: if_splits)
  next
    case False
    with assms(1) init obtain ps' where
      loop: "posts_loop T mp s u (parse_posts_html T soup) (post_id (last (parse_posts_html T soup)))
               (Some (int (length (parse_posts_html T soup)))) True = Some (Returned ps', sf, qs)"
      and ps: "ps = py_take mp ps'"
      by (auto simp: get_channel_posts_def Let_def split: if_splits option.splits outcome.splits)
    from posts_loop_accumulates [OF loop] ps show ?thesis by simp
  qed
  with assms(2) have ps: "ps = take (nat mp) ?acc"
    by (simp add: py_take_def)
  have le: "int (length (take (nat mp) xs)) \<le> mp" for xs :: "post list"
    using assms(2) by simp
  have eq: "int (length (take (nat mp) xs)) = mp" if "mp < int (length xs)" for xs :: "post list"
    using that assms(2) by simp
  from le have "int (length ps) \<le> mp"
    unfolding ps .
  moreover from eq have "mp < int (length ?acc) \<longrightarrow> int (length ps) = mp"
    unfolding ps by blast
  ultimately show ?thesis using init ps by blast
qed

theorem posts_truncated_witness:
  "get_channel_posts ascii_tables (asc ''@rian_ru'') 45 feed_initial with_token (answering feed_replies) =
     Some (Returned (Some (map post_record (rev [16..60]))), with_token,
           [(Some 41, Some 20), (Some 21, Some 40)])
   \<and> map post_record (rev [16..60]) = take 45 (map post_record (rev [1..60]))
   \<and> length (map post_record (rev [16..60])) = 45"
proof -
  have nn: "(0::int) \<le> 45" by simp
  from posts_truncated [OF feed_run nn] obtain soup where
    init: "feed_initial = GetOk (Markup soup)"
    and ps: "map post_record (rev [16..60]) =
      take (nat 45) (parse_posts_html ascii_tables soup
        @ concat (map (batch ascii_tables)
            (take (length [(Some 41 :: int option, Some 20 :: int option), (Some 21, Some 40)])
               (replies (answering feed_replies)))))"
    by blast
  from init have soup: "soup = posts_page 60 41" by (simp add: feed_initial_def)
  have rs: "replies (answering feed_replies) = feed_replies"
    by (simp add: answering_def)
  have len: "length [(Some 41 :: int option, Some 20 :: int option), (Some 21, Some 40)] = 2"
    by simp
  have n: "nat 45 = 45" by simp
  from ps have first: "map post_record (rev [16..60]) = take 45 (map post_record (rev [1..60]))"
    unfolding soup rs len feed_accumulated n .
  have count: "length (map post_record (rev [16..60])) = 45" by simp
  from feed_run first count show ?thesis by blast
qed

text \<open>
  Claim C9. When the last post of the initial batch has no id, no load-more request
  is issued, whatever \<open>max_posts\<close>, the session and the upstream are: the session is
  left as it was and the result is the initial batch cut by \<open>all_posts[:max_posts]\<close>,
  that is its first \<open>max_posts\<close> records for a maximum that is not negative (all of
  them when the maximum is not reached), and all but its last \<open>- max_posts\<close> records for
  a negative one.
\<close>

theorem posts_end_without_cursor:
  assumes "channel \<noteq> []" and "parse_posts_html T soup \<noteq> []"
    and "post_id (last (parse_posts_html T soup)) = None"
  shows "get_channel_posts T channel mp (GetOk (Markup soup)) s u =
           Some (Returned (Some
                   (if 0 \<le> mp then take (nat mp) (parse_posts_html T soup)
                    else take (nat (int (length (parse_posts_html T soup)) + mp))
                           (parse_posts_html T soup))),
                 s, [])"
proof -
  have stop: "\<not> (int (length (parse_posts_html T soup)) < mp \<and> True
      \<and> cursor_ok (post_id (last (parse_posts_html T soup))))"
    using assms(3) by (simp add: cursor_ok_def)
  have "get_channel_posts T channel mp (GetOk (Markup soup)) s u
      = Some (Returned (Some (py_take mp (parse_posts_html T soup))), s, [])"
    using assms(1,2) by (simp add: get_channel_posts_def posts_loop_done [OF stop])
  then show ?thesis
    by (simp add: py_take_def)
qed

theorem posts_end_without_cursor_witness:
  "parse_posts_html ascii_tables (doc [post_card 7, idless_post]) = [post_record 7, idless_record]
   \<and> post_id (last [post_record 7, idless_record]) = None
   \<and> get_channel_posts ascii_tables (asc ''@rian_ru'') 50 (GetOk (Markup (doc [post_card 7, idless_post])))
        with_token (answering feed_replies)
       = Some (Returned (Some [post_record 7, idless_record]), with_token, [])
   \<and> get_channel_posts ascii_tables (asc ''@rian_ru'') 1 (GetOk (Markup (doc [post_card 7, idless_post])))
        with_token (answering feed_replies)
       = Some (Returned (Some [post_record 7]), with_token, [])"
proof -
  have c: "asc ''@rian_ru'' \<noteq> []" by (simp add: asc_def)
  have ne: "parse_posts_html ascii_tables (doc [post_card 7, idless_post]) \<noteq> []"
    by (simp add: idless_page_parses)
  have nid: "post_id (last (parse_posts_html ascii_tables (doc [post_card 7, idless_post]))) = None"
    by (simp add: idless_page_parses idless_record_def)
  from posts_end_without_cursor [OF c ne nid, of 50 with_token "answering feed_replies"]
  have a: "get_channel_posts ascii_tables (asc ''@rian_ru'') 50
        (GetOk (Markup (doc [post_card 7, idless_post]))) with_token (answering feed_replies)
       = Some (Returned (Some [post_record 7, idless_record]), with_token, [])"
    by (simp add: idless_page_parses)
  from posts_end_without_cursor [OF c ne nid, of 1 with_token "answering feed_replies"]
  have b: "get_channel_posts ascii_tables (asc ''@rian_ru'') 1
        (GetOk (Markup (doc [post_card 7, idless_post]))) with_token (answering feed_replies)
       = Some (Returned (Some [post_record 7]), with_token, [])"
    by (simp add: idless_page_parses)
  from a b nid show ?thesis
    by (simp add: idless_page_parses)
qed

end
